theory Spec2Isabelle
  imports Main "HOL-Library.Word" "HOL-Library.Log_Nat"
begin

unbundle bit_operations_syntax

section \<open>Floating-point values\<close>

text \<open>
  Go's \<^verbatim>\<open>float32\<close> and \<^verbatim>\<open>float64\<close> are the IEEE 754 binary32 and binary64
  formats. A value is a finite number (carried as the rational it denotes), a negative
  zero, an infinity or a NaN; \<open>Num 0\<close> is the positive zero. Every arithmetic operation
  computes the exact result and rounds it to the nearest value of the format, ties to
  the even significand. Each operation is rounded on its own (no fused multiply-add).
\<close>

datatype ieee = Num rat | NegZero | PInf | NInf | NaN

type_synonym float32 = ieee
type_synonym float64 = ieee

text \<open>
  A format: the number of significand bits, the exponent \<open>t\<close> of the least positive
  value \<open>2 ^ - t\<close> and the exponent \<open>e\<close> of the greatest binade, whose values lie
  below \<open>2 ^ (e + 1)\<close>.
\<close>

datatype format = Format (prec: nat) (etiny: nat) (emax: nat)

definition binary32 :: format where
  "binary32 = Format 24 149 127"

definition binary64 :: format where
  "binary64 = Format 53 1074 1023"

definition rne :: "rat \<Rightarrow> int" where
  "rne q = (let f = \<lfloor>q\<rfloor>; d = q - of_int f in
     if d < 1 / 2 then f else if 1 / 2 < d then f + 1 else if even f then f else f + 1)"

text \<open>
  Rounding a magnitude \<open>q \<ge> 0\<close>: in units of the least positive value it is \<open>a\<close>;
  the bits of \<open>a\<close> beyond the significand's width are rounded away.
\<close>

definition roundq :: "format \<Rightarrow> rat \<Rightarrow> rat" where
  "roundq F q = (let a = q * 2 ^ etiny F;
       k = nat (bitlen \<lfloor>a\<rfloor> - int (prec F));
       m = rne (a / 2 ^ k)
     in of_int m * 2 ^ k / 2 ^ etiny F)"

definition fround :: "format \<Rightarrow> rat \<Rightarrow> ieee" where
  "fround F q = (let r = roundq F \<bar>q\<bar> in
     if 2 ^ (emax F + 1) \<le> r then (if q < 0 then NInf else PInf)
     else if r = 0 then (if q < 0 then NegZero else Num 0)
     else Num (if q < 0 then - r else r))"

fun is_finite :: "ieee \<Rightarrow> bool" where
  "is_finite (Num q) = True"
| "is_finite NegZero = True"
| "is_finite v = False"

fun valof :: "ieee \<Rightarrow> rat" where
  "valof (Num q) = q"
| "valof v = 0"

fun is_zero :: "ieee \<Rightarrow> bool" where
  "is_zero (Num q) = (q = 0)"
| "is_zero NegZero = True"
| "is_zero v = False"

fun is_inf :: "ieee \<Rightarrow> bool" where
  "is_inf PInf = True"
| "is_inf NInf = True"
| "is_inf v = False"

fun signbit :: "ieee \<Rightarrow> bool" where
  "signbit (Num q) = (q < 0)"
| "signbit NegZero = True"
| "signbit PInf = False"
| "signbit NInf = True"
| "signbit NaN = False"

definition zero_of :: "bool \<Rightarrow> ieee" where
  "zero_of neg = (if neg then NegZero else Num 0)"

definition inf_of :: "bool \<Rightarrow> ieee" where
  "inf_of neg = (if neg then NInf else PInf)"

definition fadd :: "format \<Rightarrow> ieee \<Rightarrow> ieee \<Rightarrow> ieee" where
  "fadd F a b =
     (if a = NaN \<or> b = NaN then NaN
      else if is_inf a \<and> is_inf b then (if a = b then a else NaN)
      else if is_inf a then a
      else if is_inf b then b
      else if valof a + valof b = 0 then zero_of (a = NegZero \<and> b = NegZero)
      else fround F (valof a + valof b))"

definition fmul :: "format \<Rightarrow> ieee \<Rightarrow> ieee \<Rightarrow> ieee" where
  "fmul F a b =
     (if a = NaN \<or> b = NaN then NaN
      else if (is_inf a \<and> is_zero b) \<or> (is_zero a \<and> is_inf b) then NaN
      else if is_inf a \<or> is_inf b then inf_of (signbit a \<noteq> signbit b)
      else if is_zero a \<or> is_zero b then zero_of (signbit a \<noteq> signbit b)
      else fround F (valof a * valof b))"

definition fdiv :: "format \<Rightarrow> ieee \<Rightarrow> ieee \<Rightarrow> ieee" where
  "fdiv F a b =
     (if a = NaN \<or> b = NaN then NaN
      else if (is_inf a \<and> is_inf b) \<or> (is_zero a \<and> is_zero b) then NaN
      else if is_inf a \<or> is_zero b then inf_of (signbit a \<noteq> signbit b)
      else if is_inf b \<or> is_zero a then zero_of (signbit a \<noteq> signbit b)
      else fround F (valof a / valof b))"

text \<open>Comparisons: a NaN compares false with everything, the two zeros are equal.\<close>

fun flt :: "ieee \<Rightarrow> ieee \<Rightarrow> bool" where
  "flt NaN b = False"
| "flt a NaN = False"
| "flt PInf b = False"
| "flt a PInf = True"
| "flt a NInf = False"
| "flt NInf b = True"
| "flt a b = (valof a < valof b)"

fun feq :: "ieee \<Rightarrow> ieee \<Rightarrow> bool" where
  "feq NaN b = False"
| "feq a NaN = False"
| "feq PInf b = (b = PInf)"
| "feq NInf b = (b = NInf)"
| "feq a PInf = False"
| "feq a NInf = False"
| "feq a b = (valof a = valof b)"

definition fgt :: "ieee \<Rightarrow> ieee \<Rightarrow> bool" where
  "fgt a b = flt b a"

definition fge :: "ieee \<Rightarrow> ieee \<Rightarrow> bool" where
  "fge a b = (flt b a \<or> feq a b)"

text \<open>Conversions. An integer converts to the nearest value of the format.\<close>

definition float_of_int :: "format \<Rightarrow> int \<Rightarrow> ieee" where
  "float_of_int F i = fround F (of_int i)"

text \<open>\<^verbatim>\<open>float64(f)\<close> of a \<^verbatim>\<open>float32\<close>: every binary32 value is a binary64 value.\<close>

definition float64_of_float32 :: "float32 \<Rightarrow> float64" where
  "float64_of_float32 f = f"

text \<open>\<^verbatim>\<open>float32(d)\<close> of a \<^verbatim>\<open>float64\<close> rounds to binary32.\<close>

fun float32_of_float64 :: "float64 \<Rightarrow> float32" where
  "float32_of_float64 (Num q) = fround binary32 q"
| "float32_of_float64 v = v"

text \<open>
  A floating-point value converts to an integer type by discarding the fraction. When
  the value does not fit (or is a NaN) the Go specification leaves the result to the
  implementation; the model takes the least value of the type, as amd64 gives.
\<close>

definition trunc :: "rat \<Rightarrow> int" where
  "trunc q = (if q < 0 then - \<lfloor>- q\<rfloor> else \<lfloor>q\<rfloor>)"

definition int_of_float :: "nat \<Rightarrow> ieee \<Rightarrow> int" where
  "int_of_float w v =
     (if is_finite v \<and> - (2 ^ (w - 1)) \<le> trunc (valof v) \<and> trunc (valof v) < 2 ^ (w - 1)
      then trunc (valof v) else - (2 ^ (w - 1)))"

text \<open>\<^verbatim>\<open>math.Modf\<close>, its integer part: the value with the fraction cut off, sign kept.\<close>

fun Modf_int :: "float64 \<Rightarrow> float64" where
  "Modf_int (Num q) = (if trunc q = 0 then zero_of (q < 0) else Num (of_int (trunc q)))"
| "Modf_int v = v"

section \<open>Styles, themes and the face set resolver\<close>

type_synonym byte = "8 word"
type_synonym rune = int

text \<open>A loaded face is an opaque handle; \<open>None\<close> is Go's \<^verbatim>\<open>nil\<close>.\<close>

type_synonym face = nat

record Resource =
  Name :: string
  Content :: "byte list"

record TextStyle =
  Bold :: bool
  Italic :: bool
  Monospace :: bool
  Symbol :: bool
  TabWidth :: int

text \<open>
  The functions of package \<^verbatim>\<open>theme\<close> that \<^verbatim>\<open>CachedFontFace\<close> calls, as the
  resources the current theme gives. Only the emoji font may be \<^verbatim>\<open>nil\<close>.
\<close>

record Theme =
  TextFont :: Resource
  DefaultTextFont :: Resource
  TextBoldFont :: Resource
  DefaultTextBoldFont :: Resource
  TextItalicFont :: Resource
  DefaultTextItalicFont :: Resource
  TextBoldItalicFont :: Resource
  DefaultTextBoldItalicFont :: Resource
  TextMonospaceFont :: Resource
  DefaultTextMonospaceFont :: Resource
  SymbolFont :: Resource
  DefaultSymbolFont :: Resource
  DefaultEmojiFont :: "Resource option"

record FontCacheItem =
  Fonts :: "face option list"

type_synonym fontCache = "TextStyle \<rightharpoonup> FontCacheItem"

text \<open>
  \<^verbatim>\<open>font.ParseTTF\<close> belongs to the typesetting library: a parameter, from the bytes
  to a face or a parse error. \<^verbatim>\<open>loadMeasureFont\<close> logs the error and returns
  \<^verbatim>\<open>nil\<close>.
\<close>

type_synonym parser = "byte list \<Rightarrow> string + face"

definition loadMeasureFont :: "parser \<Rightarrow> Resource \<Rightarrow> face option" where
  "loadMeasureFont ParseTTF data =
     (case ParseTTF (Content data) of Inl err \<Rightarrow> None | Inr loaded \<Rightarrow> Some loaded)"

text \<open>The \<^verbatim>\<open>switch\<close> of \<^verbatim>\<open>CachedFontFace\<close>: the pair \<open>(f1, f2)\<close> it loads.\<close>

definition loadStyleFaces :: "Theme \<Rightarrow> parser \<Rightarrow> TextStyle \<Rightarrow> face option \<times> face option" where
  "loadStyleFaces th ParseTTF style =
     (if Monospace style then
        (loadMeasureFont ParseTTF (TextMonospaceFont th),
         loadMeasureFont ParseTTF (DefaultTextMonospaceFont th))
      else if Bold style then
        (if Italic style then
           (loadMeasureFont ParseTTF (TextBoldItalicFont th),
            loadMeasureFont ParseTTF (DefaultTextBoldItalicFont th))
         else
           (loadMeasureFont ParseTTF (TextBoldFont th),
            loadMeasureFont ParseTTF (DefaultTextBoldFont th)))
      else if Italic style then
        (loadMeasureFont ParseTTF (TextItalicFont th),
         loadMeasureFont ParseTTF (DefaultTextItalicFont th))
      else if Symbol style then
        (loadMeasureFont ParseTTF (SymbolFont th),
         loadMeasureFont ParseTTF (DefaultSymbolFont th))
      else
        (loadMeasureFont ParseTTF (TextFont th),
         loadMeasureFont ParseTTF (DefaultTextFont th)))"

text \<open>The body of the \<^verbatim>\<open>if !ok\<close> branch: the item that is built and stored.\<close>

definition buildFontCacheItem :: "Theme \<Rightarrow> parser \<Rightarrow> TextStyle \<Rightarrow> FontCacheItem" where
  "buildFontCacheItem th ParseTTF style =
     (let (f1, f2) = loadStyleFaces th ParseTTF style;
          f1 = (if f1 = None then f2 else f1);
          faces = [f1, f2];
          faces = (case DefaultEmojiFont th of
                     None \<Rightarrow> faces
                   | Some emoji \<Rightarrow> faces @ [loadMeasureFont ParseTTF emoji])
      in \<lparr>Fonts = faces\<rparr>)"

text \<open>
  \<^verbatim>\<open>CachedFontFace\<close> reads and fills the process-wide \<^verbatim>\<open>fontCache\<close>: the cache is
  passed in and returned. The arguments \<^verbatim>\<open>fontDP\<close> and \<^verbatim>\<open>texScale\<close> are not used.
\<close>

definition CachedFontFace ::
  "Theme \<Rightarrow> parser \<Rightarrow> fontCache \<Rightarrow> TextStyle \<Rightarrow> float32 \<Rightarrow> float32 \<Rightarrow> FontCacheItem \<times> fontCache" where
  "CachedFontFace th ParseTTF cache style fontDP texScale =
     (case cache style of
        Some val \<Rightarrow> (val, cache)
      | None \<Rightarrow>
          (let val = buildFontCacheItem th ParseTTF style
           in (val, cache(style \<mapsto> val))))"

definition ClearFontCache :: "fontCache" where
  "ClearFontCache = Map.empty"


section \<open>Strings and runes\<close>

text \<open>
  A Go string is a sequence of bytes. \<^verbatim>\<open>[]rune(s)\<close> decodes it as UTF-8 the way
  the runtime does: an ill-formed sequence gives U+FFFD and consumes one byte.
\<close>

definition byte_of :: "char \<Rightarrow> int" where
  "byte_of c = int (of_char c)"

definition locb_hicb :: "char \<Rightarrow> bool" where
  "locb_hicb c = (0x80 \<le> byte_of c \<and> byte_of c \<le> 0xBF)"

definition runeError :: rune where
  "runeError = 0xFFFD"

fun decoderune :: "string \<Rightarrow> rune \<times> nat" where
  "decoderune [] = (runeError, 1)"
| "decoderune (s0 # rest) =
     (let b0 = byte_of s0 in
      if 0xC0 \<le> b0 \<and> b0 < 0xE0 then
        (case rest of
           s1 # _ \<Rightarrow>
             (let r = push_bit 6 (b0 AND 0x1F) OR (byte_of s1 AND 0x3F) in
              if locb_hicb s1 \<and> 0x7F < r then (r, 2) else (runeError, 1))
         | _ \<Rightarrow> (runeError, 1))
      else if 0xE0 \<le> b0 \<and> b0 < 0xF0 then
        (case rest of
           s1 # s2 # _ \<Rightarrow>
             (let r = push_bit 12 (b0 AND 0x0F) OR push_bit 6 (byte_of s1 AND 0x3F)
                        OR (byte_of s2 AND 0x3F) in
              if locb_hicb s1 \<and> locb_hicb s2 \<and> 0x7FF < r \<and> \<not> (0xD800 \<le> r \<and> r \<le> 0xDFFF)
              then (r, 3) else (runeError, 1))
         | _ \<Rightarrow> (runeError, 1))
      else if 0xF0 \<le> b0 \<and> b0 < 0xF8 then
        (case rest of
           s1 # s2 # s3 # _ \<Rightarrow>
             (let r = push_bit 18 (b0 AND 0x07) OR push_bit 12 (byte_of s1 AND 0x3F)
                        OR push_bit 6 (byte_of s2 AND 0x3F) OR (byte_of s3 AND 0x3F) in
              if locb_hicb s1 \<and> locb_hicb s2 \<and> locb_hicb s3 \<and> 0xFFFF < r \<and> r \<le> 0x10FFFF
              then (r, 4) else (runeError, 1))
         | _ \<Rightarrow> (runeError, 1))
      else (runeError, 1))"

text \<open>
  The decoder consumes \<open>n \<ge> 1\<close> bytes of \<open>s0 # rest\<close>, that is \<open>n - 1\<close> bytes of
  \<open>rest\<close>.
\<close>

function runes_of :: "string \<Rightarrow> rune list" where
  "runes_of [] = []"
| "runes_of (s0 # rest) =
     (if byte_of s0 < 0x80 then byte_of s0 # runes_of rest
      else (let (r, n) = decoderune (s0 # rest) in r # runes_of (drop (n - 1) rest)))"
  by pat_completeness auto
termination
  by (relation "measure length") auto

text \<open>\<^verbatim>\<open>strings.ReplaceAll(s, "\r", "")\<close>: every byte 13 is removed.\<close>

definition ReplaceAll_cr :: "string \<Rightarrow> string" where
  "ReplaceAll_cr s = filter (\<lambda>c. c \<noteq> CHR 0x0D) s"

section \<open>The shaping library's data\<close>

type_synonym Int26_6 = "32 word"

datatype Direction = DirectionLTR | DirectionRTL | DirectionTTB | DirectionBTT

record Input =
  Text :: "rune list"
  RunStart :: int
  RunEnd :: int
  Direction :: Direction
  Face :: "face option"
  Size :: Int26_6
  Script :: nat
  Language :: string

record Glyph =
  GlyphID :: nat
  XAdvance :: Int26_6

record Bounds =
  Ascent :: Int26_6
  Descent :: Int26_6
  Gap :: Int26_6

record Output =
  Advance :: Int26_6
  Glyphs :: "Glyph list"
  LineBounds :: Bounds
  RunFace :: "face option"


text \<open>
  \<^verbatim>\<open>fixed.I(i)\<close> is \<^verbatim>\<open>Int26_6(i << 6)\<close>, and \<^verbatim>\<open>LineThickness\<close> of the shaping
  library is \<^verbatim>\<open>Ascent - Descent + Gap\<close>; \<^verbatim>\<open>Int26_6\<close> is an \<^verbatim>\<open>int32\<close> and wraps.
\<close>

definition fixed_I :: "int \<Rightarrow> Int26_6" where
  "fixed_I i = word_of_int (i * 2 ^ 6)"

definition LineThickness :: "Bounds \<Rightarrow> Int26_6" where
  "LineThickness b = Ascent b - Descent b + Gap b"

text \<open>
  What the code takes from the typesetting library: the shaper, the segmenter (which
  asks the font map it is given for the face of a rune and fails when that panics) and
  the glyph lookup of a face.
\<close>

datatype error = NilDereference | IndexOutOfRange

record Typesetting =
  Shape :: "Input \<Rightarrow> Output"
  Split :: "Input \<Rightarrow> (rune \<Rightarrow> error + face option) \<Rightarrow> error + Input list"
  NominalGlyph :: "face \<Rightarrow> rune \<Rightarrow> bool"

section \<open>The painter\<close>

record Size =
  Width :: float32
  Height :: float32

definition NewSize :: "float32 \<Rightarrow> float32 \<Rightarrow> Size" where
  "NewSize w h = \<lparr>Width = w, Height = h\<rparr>"

definition DefaultTabWidth :: int where
  "DefaultTabWidth = 4"

definition fontTabSpaceSize :: float32 where
  "fontTabSpaceSize = Num 10"

definition fixed266ToFloat32 :: "Int26_6 \<Rightarrow> float32" where
  "fixed266ToFloat32 i =
     float32_of_float64 (fdiv binary64 (float_of_int binary64 (sint i)) (Num (2 ^ 6)))"

definition float32ToFixed266 :: "float32 \<Rightarrow> Int26_6" where
  "float32ToFixed266 f =
     word_of_int (int_of_float 32 (fmul binary64 (float64_of_float32 f) (Num (2 ^ 6))))"

definition tabStop :: "float32 \<Rightarrow> float32 \<Rightarrow> int \<Rightarrow> float32" where
  "tabStop spacew x tabWidth =
     (let tabWidth = (if tabWidth \<le> 0 then DefaultTabWidth else tabWidth);
          tabw = fmul binary32 spacew (float_of_int binary32 tabWidth);
          tabs = Modf_int (float64_of_float32 (fdiv binary32 (fadd binary32 x tabw) tabw))
      in fmul binary32 tabw (float32_of_float64 tabs))"

text \<open>
  \<^verbatim>\<open>fixedFontmap.ResolveFace\<close>: the first face of the list that has the rune, else
  the face at index 0. Asking a \<^verbatim>\<open>nil\<close> face panics, and so does index 0 of an
  empty list. The loop gives \<open>Inr None\<close> when it ends without a face.
\<close>

fun ResolveFace_loop :: "(face \<Rightarrow> rune \<Rightarrow> bool) \<Rightarrow> face option list \<Rightarrow> rune \<Rightarrow> error + face option" where
  "ResolveFace_loop has [] r = Inr None"
| "ResolveFace_loop has (None # ff) r = Inl NilDereference"
| "ResolveFace_loop has (Some f # ff) r = (if has f r then Inr (Some f) else ResolveFace_loop has ff r)"

definition ResolveFace :: "(face \<Rightarrow> rune \<Rightarrow> bool) \<Rightarrow> face option list \<Rightarrow> rune \<Rightarrow> error + face option" where
  "ResolveFace has ff r =
     (case ResolveFace_loop has ff r of
        Inl e \<Rightarrow> Inl e
      | Inr (Some f) \<Rightarrow> Inr (Some f)
      | Inr None \<Rightarrow> (case ff of [] \<Rightarrow> Inl IndexOutOfRange | f0 # _ \<Rightarrow> Inr f0))"

text \<open>
  The glyph sink \<^verbatim>\<open>cb\<close> returns nothing and acts on what it has captured: it is a
  function on the state \<open>'s\<close> of the sink, threaded through the calls in order.
  \<^verbatim>\<open>processFontRun\<close> updates the cursor through a pointer: the model returns the
  size, the base, the new cursor and the sink.
\<close>

type_synonym 's sink = "Output \<Rightarrow> float32 \<Rightarrow> float32 \<Rightarrow> 's \<Rightarrow> 's"

definition processFontRun ::
  "Typesetting \<Rightarrow> Output \<Rightarrow> Int26_6 \<Rightarrow> float32 \<Rightarrow> float32 \<Rightarrow> 's sink \<Rightarrow> 's
     \<Rightarrow> Size \<times> float32 \<times> float32 \<times> 's" where
  "processFontRun ts run textSize y advance cb sink =
     (if length (Glyphs run) = 1 \<and> GlyphID (Glyphs run ! 0) = 0 then
        (let inp = \<lparr>Text = [0xfffd], RunStart = 0, RunEnd = 1, Direction = DirectionLTR,
                    Face = RunFace run, Size = textSize, Script = 0, Language = []\<rparr>;
             out = Shape ts inp;
             y = fixed266ToFloat32 (Ascent (LineBounds out));
             sink = cb out advance y sink;
             advance = fadd binary32 (fixed266ToFloat32 (Advance out)) advance
         in (NewSize advance (fixed266ToFloat32 (LineThickness (LineBounds run))),
             fixed266ToFloat32 (Ascent (LineBounds run)), advance, sink))
      else
        (let sink = cb run advance y sink;
             advance = fadd binary32 (fixed266ToFloat32 (Advance run)) advance
         in (NewSize advance (fixed266ToFloat32 (LineThickness (LineBounds run))),
             fixed266ToFloat32 (Ascent (LineBounds run)), advance, sink)))"

text \<open>The first loop of \<^verbatim>\<open>processSubString\<close>: shape every run, keep the greatest ascent.\<close>

definition shapeRuns :: "Typesetting \<Rightarrow> Input list \<Rightarrow> Output list \<times> float32" where
  "shapeRuns ts runs =
     foldl (\<lambda>(line, base) run.
              (let out = Shape ts run;
                   asc = fixed266ToFloat32 (Ascent (LineBounds out))
               in (line @ [out], if fgt asc base then asc else base)))
       ([], Num 0) runs"

text \<open>The second loop: the state is the cursor, the thickness and the sink.\<close>

fun processRuns ::
  "Typesetting \<Rightarrow> Int26_6 \<Rightarrow> float32 \<Rightarrow> 's sink \<Rightarrow> Output list \<Rightarrow> float32 \<times> float32 \<times> 's
     \<Rightarrow> float32 \<times> float32 \<times> 's" where
  "processRuns ts textSize base cb [] st = st"
| "processRuns ts textSize base cb (run # line) (advance, thickness, sink) =
     (let (sz, adv, advance, sink) = processFontRun ts run textSize base advance cb sink;
          thickness = (if fgt (Height sz) thickness then Height sz else thickness);
          advance = (if fge adv advance then adv else advance)
      in processRuns ts textSize base cb line (advance, thickness, sink))"

definition processSubString ::
  "Typesetting \<Rightarrow> rune list \<Rightarrow> face option list \<Rightarrow> float32 \<Rightarrow> float32 \<Rightarrow> float32 \<Rightarrow> 's sink \<Rightarrow> 's
     \<Rightarrow> error + (Size \<times> float32 \<times> 's)" where
  "processSubString ts str f fontSize scale startX cb sink =
     (let inp = \<lparr>Text = str, RunStart = 0, RunEnd = int (length str), Direction = DirectionLTR,
                 Face = None, Size = fixed_I (int_of_float 64 (fmul binary32 fontSize scale)),
                 Script = 0, Language = []\<rparr>
      in case Split ts inp (ResolveFace (NominalGlyph ts) f) of
           Inl e \<Rightarrow> Inl e
         | Inr runs \<Rightarrow>
             (let (line, base) = shapeRuns ts runs;
                  (advance, thickness, sink) =
                     processRuns ts (float32ToFixed266 fontSize) base cb line (startX, Num 0, sink)
              in Inr (NewSize advance thickness, advance, sink)))"

text \<open>
  The loop of \<^verbatim>\<open>processString\<close> over the runes with their indices; its state is
  \<open>(x, height, start)\<close> and the sink. A panic of a substring ends it.
\<close>

fun processString_loop ::
  "Typesetting \<Rightarrow> rune list \<Rightarrow> face option list \<Rightarrow> float32 \<Rightarrow> float32 \<Rightarrow> int \<Rightarrow> 's sink
     \<Rightarrow> (nat \<times> rune) list \<Rightarrow> float32 \<times> float32 \<times> nat \<times> 's
     \<Rightarrow> error + (float32 \<times> float32 \<times> nat \<times> 's)" where
  "processString_loop ts rs f fontSize scale tabWidth cb [] st = Inr st"
| "processString_loop ts rs f fontSize scale tabWidth cb ((i, c) # ics) (x, height, start, sink) =
     (if c = 0x09 then
        (case (if i > start then
                 (case processSubString ts (take (i - start) (drop start rs)) f fontSize scale x cb sink of
                    Inl e \<Rightarrow> Inl e
                  | Inr (inset, a, sink) \<Rightarrow> Inr (a, Height inset, sink))
               else Inr (x, height, sink)) of
           Inl e \<Rightarrow> Inl e
         | Inr (x, height, sink) \<Rightarrow>
             (let spacew = fmul binary32 scale fontTabSpaceSize;
                  x = tabStop spacew x tabWidth;
                  start = i + 1
              in processString_loop ts rs f fontSize scale tabWidth cb ics (x, height, start, sink)))
      else processString_loop ts rs f fontSize scale tabWidth cb ics (x, height, start, sink))"

definition processString ::
  "Typesetting \<Rightarrow> string \<Rightarrow> face option list \<Rightarrow> float32 \<Rightarrow> float32 \<Rightarrow> int \<Rightarrow> 's sink \<Rightarrow> 's
     \<Rightarrow> error + ((Size \<times> float32) \<times> 's)" where
  "processString ts s f fontSize scale tabWidth cb sink =
     (let s = ReplaceAll_cr s;
          rs = runes_of s
      in case processString_loop ts rs f fontSize scale tabWidth cb (enumerate 0 rs)
                (Num 0, Num 0, 0, sink) of
           Inl e \<Rightarrow> Inl e
         | Inr (x, height, start, sink) \<Rightarrow>
             (if start < length rs then
                (case processSubString ts (drop start rs) f fontSize scale x cb sink of
                   Inl e \<Rightarrow> Inl e
                 | Inr (trail, a, sink) \<Rightarrow> Inr ((NewSize a (Height trail), a), sink))
              else Inr ((NewSize x height, x), sink)))"

text \<open>
  \<^verbatim>\<open>MeasureString\<close>: the sink does nothing (its state is \<open>()\<close>), the scale is 1.
\<close>

definition MeasureString ::
  "Typesetting \<Rightarrow> face option list \<Rightarrow> string \<Rightarrow> float32 \<Rightarrow> int \<Rightarrow> error + (Size \<times> float32)" where
  "MeasureString ts f s textSize tabWidth =
     (if s = '' '' then Inr (\<lparr>Width = Num 0, Height = Num 0\<rparr>, Num 0)
      else map_sum id fst
             (processString ts s f textSize (Num 1) tabWidth (\<lambda>seg x y u. u) ()))"

text \<open>
  \<^verbatim>\<open>DrawString\<close>: the sink paints the run into the image with the renderer of the
  rendering library, at the cursor and origin cut to integers. The image is returned.
\<close>

record Renderer =
  FontSize :: float32
  PixScale :: float32
  Color :: nat

definition DrawString ::
  "(Renderer \<Rightarrow> Output \<Rightarrow> 'img \<Rightarrow> int \<Rightarrow> int \<Rightarrow> 'img) \<Rightarrow> Typesetting \<Rightarrow> 'img \<Rightarrow> string \<Rightarrow> nat
     \<Rightarrow> face option list \<Rightarrow> float32 \<Rightarrow> float32 \<Rightarrow> int \<Rightarrow> error + 'img" where
  "DrawString DrawShapedRunAt ts dst s color f fontSize scale tabWidth =
     (let r = \<lparr>FontSize = fontSize, PixScale = scale, Color = color\<rparr> in
      if s = '' '' then Inr dst
      else (let paint = (\<lambda>seg x y img.
                  DrawShapedRunAt r seg img (int_of_float 64 x) (int_of_float 64 y))
            in map_sum id snd (processString ts s f fontSize scale tabWidth paint dst)))"

section \<open>The metrics cache and the measured size\<close>

type_synonym metricsCache = "(string \<times> float32 \<times> TextStyle) \<rightharpoonup> (Size \<times> float32)"

text \<open>
  Modelled from the spec: \<^verbatim>\<open>cache.GetFontMetrics\<close> and \<^verbatim>\<open>cache.SetFontMetrics\<close> of
  package \<^verbatim>\<open>internal/cache\<close>, whose code is not among the sources. The cache is keyed
  by (text, font size, style) and holds (size, baseline); a miss is a zero baseline.
\<close>

definition GetFontMetrics :: "metricsCache \<Rightarrow> string \<Rightarrow> float32 \<Rightarrow> TextStyle \<Rightarrow> Size \<times> float32" where
  "GetFontMetrics mc text fontSize style =
     (case mc (text, fontSize, style) of
        None \<Rightarrow> (\<lparr>Width = Num 0, Height = Num 0\<rparr>, Num 0)
      | Some (sz, base) \<Rightarrow> (sz, base))"

definition SetFontMetrics ::
  "metricsCache \<Rightarrow> string \<Rightarrow> float32 \<Rightarrow> TextStyle \<Rightarrow> Size \<Rightarrow> float32 \<Rightarrow> metricsCache" where
  "SetFontMetrics mc text fontSize style sz base = mc((text, fontSize, style) \<mapsto> (sz, base))"

definition measureText ::
  "Theme \<Rightarrow> parser \<Rightarrow> Typesetting \<Rightarrow> fontCache \<Rightarrow> string \<Rightarrow> float32 \<Rightarrow> TextStyle
     \<Rightarrow> (error + (Size \<times> float32)) \<times> fontCache" where
  "measureText th ParseTTF ts fc text fontSize style =
     (let (face, fc) = CachedFontFace th ParseTTF fc style fontSize (Num 1)
      in (MeasureString ts (Fonts face) text fontSize (TabWidth style), fc))"

text \<open>
  \<^verbatim>\<open>RenderedTextSize\<close> works on both caches. When the measurement panics nothing is
  stored in the metrics cache.
\<close>

definition RenderedTextSize ::
  "Theme \<Rightarrow> parser \<Rightarrow> Typesetting \<Rightarrow> metricsCache \<times> fontCache \<Rightarrow> string \<Rightarrow> float32 \<Rightarrow> TextStyle
     \<Rightarrow> (error + (Size \<times> float32)) \<times> (metricsCache \<times> fontCache)" where
  "RenderedTextSize th ParseTTF ts caches text fontSize style =
     (let (mc, fc) = caches;
          (sz, base) = GetFontMetrics mc text fontSize style
      in if \<not> feq base (Num 0) then (Inr (sz, base), (mc, fc))
         else (case measureText th ParseTTF ts fc text fontSize style of
                 (Inl e, fc) \<Rightarrow> (Inl e, (mc, fc))
               | (Inr (sz, base), fc) \<Rightarrow>
                   (Inr (sz, base), (SetFontMetrics mc text fontSize style sz base, fc))))"


section \<open>Predicates of the statements and an example environment\<close>

text \<open>
  The font cache holds only what \<^verbatim>\<open>CachedFontFace\<close> stored under the current theme:
  it is emptied by \<^verbatim>\<open>ClearFontCache\<close> and written by nothing else.
\<close>

definition cache_built :: "Theme \<Rightarrow> parser \<Rightarrow> fontCache \<Rightarrow> bool" where
  "cache_built th ParseTTF fc =
     (\<forall>style val. fc style = Some val \<longrightarrow> val = buildFontCacheItem th ParseTTF style)"

text \<open>
  The face set of a category, in the words of the specification: the primary face or,
  when it does not load, the default face; the default face; the emoji face if the
  environment supplies one.
\<close>

definition faceSetOf :: "parser \<Rightarrow> Resource \<Rightarrow> Resource \<Rightarrow> Resource option \<Rightarrow> face option list" where
  "faceSetOf ParseTTF primary dflt emoji =
     [if loadMeasureFont ParseTTF primary = None then loadMeasureFont ParseTTF dflt
      else loadMeasureFont ParseTTF primary,
      loadMeasureFont ParseTTF dflt]
     @ (case emoji of None \<Rightarrow> [] | Some e \<Rightarrow> [loadMeasureFont ParseTTF e])"

text \<open>A value of the format: a finite number that rounding leaves as it is.\<close>

definition is_float :: "format \<Rightarrow> ieee \<Rightarrow> bool" where
  "is_float F v = (case v of Num q \<Rightarrow> fround F q = Num q | _ \<Rightarrow> True)"

text \<open>
  An example environment. A font resource is one byte; bytes below 100 parse, to the
  face of that number. Face 1 has the space and the lower-case letters, face 2 the
  upper-case letters and U+FFFD and a taller line. The segmenter makes one run of each
  rune, with the face the font map gives; the shaper gives each rune 8 pixels.
\<close>

definition demoParse :: parser where
  "demoParse bs = (case bs of [b] \<Rightarrow> (if b < 100 then Inr (unat b) else Inl ''not a font'')
                   | _ \<Rightarrow> Inl ''not a font'')"

definition demoResource :: "byte \<Rightarrow> Resource" where
  "demoResource b = \<lparr>Name = ''font'', Content = [b]\<rparr>"

definition demoTheme :: Theme where
  "demoTheme = \<lparr>TextFont = demoResource 1, DefaultTextFont = demoResource 11,
     TextBoldFont = demoResource 2, DefaultTextBoldFont = demoResource 12,
     TextItalicFont = demoResource 3, DefaultTextItalicFont = demoResource 13,
     TextBoldItalicFont = demoResource 4, DefaultTextBoldItalicFont = demoResource 14,
     TextMonospaceFont = demoResource 5, DefaultTextMonospaceFont = demoResource 15,
     SymbolFont = demoResource 6, DefaultSymbolFont = demoResource 16,
     DefaultEmojiFont = None\<rparr>"

definition plainStyle :: TextStyle where
  "plainStyle = \<lparr>Bold = False, Italic = False, Monospace = False, Symbol = False, TabWidth = 0\<rparr>"

definition demoHas :: "face \<Rightarrow> rune \<Rightarrow> bool" where
  "demoHas f r = ((f = 1 \<and> (r = 0x20 \<or> (0x61 \<le> r \<and> r \<le> 0x7A)))
                  \<or> (f = 2 \<and> ((0x41 \<le> r \<and> r \<le> 0x5A) \<or> r = 0xFFFD)))"

definition demoShape :: "Input \<Rightarrow> Output" where
  "demoShape inp =
     \<lparr>Advance = word_of_int (512 * (RunEnd inp - RunStart inp)),
      Glyphs = map (\<lambda>r. \<lparr>GlyphID = (case Face inp of
                                        None \<Rightarrow> 0
                                      | Some f \<Rightarrow> if demoHas f r then nat r else 0),
                          XAdvance = 512\<rparr>)
                 (take (nat (RunEnd inp - RunStart inp)) (drop (nat (RunStart inp)) (Text inp))),
      LineBounds = (if Face inp = Some 2 then \<lparr>Ascent = 1024, Descent = - 256, Gap = 0\<rparr>
                    else \<lparr>Ascent = 640, Descent = - 192, Gap = 0\<rparr>),
      RunFace = Face inp\<rparr>"

fun demoSplit_runs :: "Input \<Rightarrow> (rune \<Rightarrow> error + face option) \<Rightarrow> int \<Rightarrow> rune list \<Rightarrow> error + Input list" where
  "demoSplit_runs inp resolve i [] = Inr []"
| "demoSplit_runs inp resolve i (r # rs) =
     (case resolve r of
        Inl e \<Rightarrow> Inl e
      | Inr fc \<Rightarrow>
          (case demoSplit_runs inp resolve (i + 1) rs of
             Inl e \<Rightarrow> Inl e
           | Inr runs \<Rightarrow> Inr (inp\<lparr>RunStart := i, RunEnd := i + 1, Face := fc\<rparr> # runs)))"

definition demoTypesetting :: Typesetting where
  "demoTypesetting = \<lparr>Shape = demoShape,
     Split = (\<lambda>inp resolve. demoSplit_runs inp resolve 0 (Text inp)),
     NominalGlyph = demoHas\<rparr>"

text \<open>
  The primary and the built-in default resource of a style's category, in the
  precedence the specification gives.
\<close>

definition categoryResources :: "Theme \<Rightarrow> TextStyle \<Rightarrow> Resource \<times> Resource" where
  "categoryResources th style =
     (if Monospace style then (TextMonospaceFont th, DefaultTextMonospaceFont th)
      else if Bold style \<and> Italic style then (TextBoldItalicFont th, DefaultTextBoldItalicFont th)
      else if Bold style then (TextBoldFont th, DefaultTextBoldFont th)
      else if Italic style then (TextItalicFont th, DefaultTextItalicFont th)
      else if Symbol style then (SymbolFont th, DefaultSymbolFont th)
      else (TextFont th, DefaultTextFont th))"



definition record_call :: "(Output \<times> float32 \<times> float32) list sink" where
  "record_call seg x y calls = calls @ [(seg, x, y)]"

text \<open>
  The effective tab width and "the smallest multiple of \<open>w\<close> strictly greater than
  \<open>x\<close>", in the words of the specification.
\<close>

definition effectiveTabWidth :: "int \<Rightarrow> int" where
  "effectiveTabWidth tabWidth = (if 0 < tabWidth then tabWidth else 4)"

definition next_multiple :: "rat \<Rightarrow> rat \<Rightarrow> rat \<Rightarrow> bool" where
  "next_multiple w x y =
     ((\<exists>k::int. y = w * of_int k) \<and> x < y \<and> (\<forall>j::int. x < w * of_int j \<longrightarrow> y \<le> w * of_int j))"

text \<open>Giving a list of recorded calls to a sink, in order.\<close>

definition replay :: "'s sink \<Rightarrow> (Output \<times> float32 \<times> float32) list \<Rightarrow> 's \<Rightarrow> 's" where
  "replay cb calls sink = foldl (\<lambda>s (seg, x, y). cb seg x y s) sink calls"

section \<open>Rounding\<close>

lemma rne_of_int: "rne (of_int n) = n"
  by (simp add: rne_def)

lemma rne_bounds: "\<lfloor>q\<rfloor> \<le> rne q \<and> rne q \<le> \<lfloor>q\<rfloor> + 1"
  by (simp add: rne_def Let_def)

lemma rne_mono:
  assumes "a \<le> b"
  shows "rne a \<le> rne b"
proof (cases "\<lfloor>a\<rfloor> = \<lfloor>b\<rfloor>")
  case True
  with assms have "a - of_int \<lfloor>a\<rfloor> \<le> b - of_int \<lfloor>b\<rfloor>" by simp
  with True show ?thesis by (auto simp: rne_def Let_def)
next
  case False
  with assms have "\<lfloor>a\<rfloor> < \<lfloor>b\<rfloor>" using floor_mono [OF assms] by linarith
  with rne_bounds [of a] rne_bounds [of b] show ?thesis by linarith
qed

lemma bitlen_le_if_less:
  assumes "0 < m" "m < 2 ^ p"
  shows "bitlen m \<le> int p"
proof (rule ccontr)
  assume "\<not> bitlen m \<le> int p"
  then have "p \<le> nat (bitlen m - 1)" by linarith
  then have "(2::int) ^ p \<le> 2 ^ nat (bitlen m - 1)" by (simp add: power_increasing)
  with bitlen_bounds [OF assms(1)] assms(2) show False by linarith
qed

text \<open>A magnitude that fits the significand is not changed by rounding.\<close>

lemma roundq_exact:
  assumes "q * 2 ^ etiny F = of_int (m * 2 ^ j)" "0 \<le> m" "m < 2 ^ prec F"
  shows "roundq F q = q"
proof (cases "m = 0")
  case True
  with assms have "q = 0" by simp
  then show ?thesis by (simp add: roundq_def rne_def)
next
  case False
  with assms have m: "0 < m" by simp
  define k where "k = nat (bitlen (m * 2 ^ j) - int (prec F))"
  have "bitlen m \<le> int (prec F)" using m assms(3) by (rule bitlen_le_if_less)
  then have kj: "k \<le> j" using m by (simp add: k_def)
  obtain d where d: "j = k + d" using kj by (auto simp: le_iff_add)
  have "(of_int (m * 2 ^ j) :: rat) / 2 ^ k = of_int (m * 2 ^ d)"
    by (simp add: d power_add)
  then have "rne (of_int (m * 2 ^ j) / 2 ^ k) = m * 2 ^ d"
    by (simp only: rne_of_int)
  moreover have "(of_int (m * 2 ^ d) :: rat) * 2 ^ k = of_int (m * 2 ^ j)"
    by (simp add: d power_add)
  ultimately have "roundq F q = of_int (m * 2 ^ j) / 2 ^ etiny F"
    unfolding roundq_def Let_def assms(1) floor_of_int k_def [symmetric] by simp
  also have "\<dots> = q" using assms(1) [symmetric] by simp
  finally show ?thesis .
qed

lemma fround_exact:
  assumes "\<bar>q\<bar> * 2 ^ etiny F = of_int (m * 2 ^ j)" "0 \<le> m" "m < 2 ^ prec F"
    and "\<bar>q\<bar> < 2 ^ (emax F + 1)"
  shows "fround F q = Num q"
proof -
  have "roundq F \<bar>q\<bar> = \<bar>q\<bar>" using assms(1-3) by (rule roundq_exact)
  with assms(4) show ?thesis by (auto simp: fround_def Let_def)
qed

lemma fround_zero: "fround F 0 = Num 0"
  by (simp add: fround_def roundq_def rne_def not_le)

lemma fround_dyadic:
  assumes "\<bar>n\<bar> < 2 ^ prec F" "s \<le> etiny F" "\<bar>n\<bar> < 2 ^ (emax F + 1 + s)"
  shows "fround F (of_int n / 2 ^ s) = Num (of_int n / 2 ^ s)"
proof (rule fround_exact [where m = "\<bar>n\<bar>" and j = "etiny F - s"])
  obtain d where d: "etiny F = s + d" using assms(2) by (auto simp: le_iff_add)
  show "\<bar>rat_of_int n / 2 ^ s\<bar> * 2 ^ etiny F = rat_of_int (\<bar>n\<bar> * 2 ^ (etiny F - s))"
    by (simp add: d power_add)
  show "0 \<le> \<bar>n\<bar>" by simp
  show "\<bar>n\<bar> < 2 ^ prec F" by fact
  have "rat_of_int \<bar>n\<bar> < rat_of_int (2 ^ (emax F + 1 + s))"
    using assms(3) by (simp only: of_int_less_iff)
  then show "\<bar>rat_of_int n / 2 ^ s\<bar> < 2 ^ (emax F + 1)"
    by (simp add: power_add field_simps)
qed

lemma fround32_fixed:
  assumes "\<bar>n\<bar> < 2 ^ 24"
  shows "fround binary32 (of_int n / 2 ^ 6) = Num (of_int n / 2 ^ 6)"
proof (rule fround_dyadic)
  show "\<bar>n\<bar> < 2 ^ prec binary32" using assms by (simp add: binary32_def)
  show "6 \<le> etiny binary32" by (simp add: binary32_def)
  have "(2::int) ^ 24 \<le> 2 ^ (emax binary32 + 1 + 6)"
    by (rule power_increasing) (simp_all add: binary32_def)
  with assms show "\<bar>n\<bar> < 2 ^ (emax binary32 + 1 + 6)" by linarith
qed

lemma fround64_fixed:
  assumes "\<bar>n\<bar> < 2 ^ 53"
  shows "fround binary64 (of_int n / 2 ^ 6) = Num (of_int n / 2 ^ 6)"
proof (rule fround_dyadic)
  show "\<bar>n\<bar> < 2 ^ prec binary64" using assms by (simp add: binary64_def)
  show "6 \<le> etiny binary64" by (simp add: binary64_def)
  have "(2::int) ^ 53 \<le> 2 ^ (emax binary64 + 1 + 6)"
    by (rule power_increasing) (simp_all add: binary64_def)
  with assms show "\<bar>n\<bar> < 2 ^ (emax binary64 + 1 + 6)" by linarith
qed

lemma fround64_int:
  assumes "\<bar>n\<bar> < 2 ^ 53"
  shows "fround binary64 (of_int n) = Num (of_int n)"
proof -
  have "(2::int) ^ 53 \<le> 2 ^ (emax binary64 + 1 + 0)"
    by (rule power_increasing) (simp_all add: binary64_def)
  with assms have "\<bar>n\<bar> < 2 ^ (emax binary64 + 1 + 0)" by linarith
  with assms fround_dyadic [of n binary64 0] show ?thesis by (simp add: binary64_def)
qed

lemma sint32_bound: "\<bar>sint (i :: 32 word)\<bar> < 2 ^ 53"
proof -
  have "- (2 ^ 31) \<le> sint i" "sint i < 2 ^ 31"
    using sint_range_size [of i] by (simp_all add: word_size)
  moreover have "(2::int) ^ 31 < 2 ^ 53" by simp
  ultimately show ?thesis by linarith
qed

text \<open>
  The binary64 steps of \<^verbatim>\<open>fixed266ToFloat32\<close> are exact: only the conversion to
  binary32 rounds.
\<close>

lemma fixed_conv:
  assumes "\<bar>n\<bar> < 2 ^ 53"
  shows "float32_of_float64 (fdiv binary64 (float_of_int binary64 n) (Num (2 ^ 6)))
           = fround binary32 (of_int n / 2 ^ 6)"
proof (cases "n = 0")
  case True
  then show ?thesis
    by (simp add: float_of_int_def fround_zero fdiv_def zero_of_def)
next
  case False
  then show ?thesis
    using fround64_fixed [OF assms]
    by (simp add: float_of_int_def fround64_int [OF assms] fdiv_def)
qed

lemma fixed266ToFloat32_eq:
  "fixed266ToFloat32 i = fround binary32 (of_int (sint i) / 2 ^ 6)"
  unfolding fixed266ToFloat32_def by (rule fixed_conv [OF sint32_bound])

section \<open>The face set resolver\<close>

lemma cache_built_empty: "cache_built th P ClearFontCache"
  by (simp add: cache_built_def ClearFontCache_def)

lemma CachedFontFace_built:
  "cache_built th P fc \<Longrightarrow> fst (CachedFontFace th P fc style dp sc) = buildFontCacheItem th P style"
  by (auto simp: cache_built_def CachedFontFace_def Let_def split: option.splits)

lemma CachedFontFace_keeps_built:
  "cache_built th P fc \<Longrightarrow> cache_built th P (snd (CachedFontFace th P fc style dp sc))"
  by (auto simp: cache_built_def CachedFontFace_def Let_def split: option.splits)

lemma Fonts_build:
  "Fonts (buildFontCacheItem th P style) =
     (let (f1, f2) = loadStyleFaces th P style in
      [if f1 = None then f2 else f1, f2] @
      (case DefaultEmojiFont th of None \<Rightarrow> [] | Some e \<Rightarrow> [loadMeasureFont P e]))"
  by (simp add: buildFontCacheItem_def Let_def split: prod.splits option.splits)

text \<open>
  C7. The category of a style is chosen in the order Monospace, Bold (with or without
  Italic), Italic, Symbol, default, the first match winning: the face set that
  \<^verbatim>\<open>CachedFontFace\<close> returns is built from the primary and default resources of that
  category. A style with Monospace and Bold gets the monospace faces.
\<close>

theorem face_category_precedence:
  assumes "cache_built th P fc"
  shows "Fonts (fst (CachedFontFace th P fc style dp sc)) =
     (if Monospace style then
        faceSetOf P (TextMonospaceFont th) (DefaultTextMonospaceFont th) (DefaultEmojiFont th)
      else if Bold style \<and> Italic style then
        faceSetOf P (TextBoldItalicFont th) (DefaultTextBoldItalicFont th) (DefaultEmojiFont th)
      else if Bold style then
        faceSetOf P (TextBoldFont th) (DefaultTextBoldFont th) (DefaultEmojiFont th)
      else if Italic style then
        faceSetOf P (TextItalicFont th) (DefaultTextItalicFont th) (DefaultEmojiFont th)
      else if Symbol style then
        faceSetOf P (SymbolFont th) (DefaultSymbolFont th) (DefaultEmojiFont th)
      else faceSetOf P (TextFont th) (DefaultTextFont th) (DefaultEmojiFont th))"
  using assms
  by (simp add: CachedFontFace_built Fonts_build loadStyleFaces_def faceSetOf_def)

theorem face_category_precedence_witness:
  "Fonts (fst (CachedFontFace demoTheme demoParse ClearFontCache
      \<lparr>Bold = True, Italic = False, Monospace = True, Symbol = False, TabWidth = 0\<rparr> (Num 12) (Num 1)))
   = [Some 5, Some 15]"
  using face_category_precedence [OF cache_built_empty, of demoTheme demoParse
      "\<lparr>Bold = True, Italic = False, Monospace = True, Symbol = False, TabWidth = 0\<rparr>" "Num 12" "Num 1"]
  by (simp add: faceSetOf_def demoTheme_def demoResource_def demoParse_def loadMeasureFont_def)

lemma loadStyleFaces_category:
  "loadStyleFaces th P style =
     (loadMeasureFont P (fst (categoryResources th style)),
      loadMeasureFont P (snd (categoryResources th style)))"
  by (simp add: loadStyleFaces_def categoryResources_def)

text \<open>
  C10. A face set of \<^verbatim>\<open>CachedFontFace\<close> has two faces, or three when the theme has
  an emoji font; index 1 is the default face of the style's category, index 0 the
  primary face when it loaded and else the face of index 1; the emoji face is last.
\<close>

theorem face_set_shape:
  assumes "cache_built th P fc"
  shows "(let faces = Fonts (fst (CachedFontFace th P fc style dp sc));
              primary = loadMeasureFont P (fst (categoryResources th style));
              dflt = loadMeasureFont P (snd (categoryResources th style))
          in length faces = (case DefaultEmojiFont th of None \<Rightarrow> 2 | Some e \<Rightarrow> 3)
             \<and> faces ! 1 = dflt
             \<and> faces ! 0 = (if primary = None then faces ! 1 else primary)
             \<and> (case DefaultEmojiFont th of
                   None \<Rightarrow> True
                 | Some e \<Rightarrow> last faces = loadMeasureFont P e \<and> faces ! 2 = loadMeasureFont P e))"
  using assms
  by (simp add: CachedFontFace_built Fonts_build loadStyleFaces_category Let_def
        split: option.splits)

theorem face_set_shape_witness:
  "(let faces = Fonts (fst (CachedFontFace
       (demoTheme\<lparr>TextFont := demoResource 200, DefaultEmojiFont := Some (demoResource 20)\<rparr>)
       demoParse ClearFontCache plainStyle (Num 12) (Num 1)))
    in length faces = 3 \<and> faces ! 0 = Some 11 \<and> faces ! 1 = Some 11 \<and> faces ! 2 = Some 20
       \<and> last faces = Some 20)"
  using face_set_shape [OF cache_built_empty,
      of "demoTheme\<lparr>TextFont := demoResource 200, DefaultEmojiFont := Some (demoResource 20)\<rparr>"
         demoParse plainStyle "Num 12" "Num 1"]
  by (simp add: Let_def categoryResources_def plainStyle_def demoTheme_def demoResource_def
        demoParse_def loadMeasureFont_def)

text \<open>
  C6, as stated, fails when neither the primary nor the default face loads: index 0 is
  then \<^verbatim>\<open>nil\<close>.
\<close>

theorem first_face_counterexample:
  "Fonts (fst (CachedFontFace
      (demoTheme\<lparr>TextFont := demoResource 200, DefaultTextFont := demoResource 201\<rparr>)
      demoParse ClearFontCache plainStyle (Num 12) (Num 1))) ! 0 = None"
  by (simp add: CachedFontFace_def ClearFontCache_def buildFontCacheItem_def loadStyleFaces_def
        Let_def plainStyle_def demoTheme_def demoResource_def demoParse_def loadMeasureFont_def)

text \<open>
  C6, amended. The face set is never empty, and its first face is \<^verbatim>\<open>nil\<close> exactly
  when both the primary and the default face of the category fail to load.
\<close>

theorem first_face_set:
  assumes "cache_built th P fc"
  shows "Fonts (fst (CachedFontFace th P fc style dp sc)) \<noteq> []
     \<and> (Fonts (fst (CachedFontFace th P fc style dp sc)) ! 0 = None)
         = (loadMeasureFont P (fst (categoryResources th style)) = None
            \<and> loadMeasureFont P (snd (categoryResources th style)) = None)"
  using assms
  by (auto simp add: CachedFontFace_built Fonts_build loadStyleFaces_category Let_def
        split: option.splits)

theorem first_face_set_witness:
  "Fonts (fst (CachedFontFace demoTheme demoParse ClearFontCache plainStyle (Num 12) (Num 1))) \<noteq> []
   \<and> Fonts (fst (CachedFontFace demoTheme demoParse ClearFontCache plainStyle (Num 12) (Num 1))) ! 0 \<noteq> None"
  using first_face_set [OF cache_built_empty, of demoTheme demoParse plainStyle "Num 12" "Num 1"]
  by (simp add: categoryResources_def plainStyle_def demoTheme_def demoResource_def
        demoParse_def loadMeasureFont_def)

section \<open>Evaluating the example\<close>

lemma fround32_int:
  assumes "\<bar>n\<bar> < 2 ^ 24"
  shows "fround binary32 (of_int n) = Num (of_int n)"
proof -
  have "(2::int) ^ 24 \<le> 2 ^ (emax binary32 + 1 + 0)"
    by (rule power_increasing) (simp_all add: binary32_def)
  with assms have "\<bar>n\<bar> < 2 ^ (emax binary32 + 1 + 0)" by linarith
  with assms fround_dyadic [of n binary32 0] show ?thesis by (simp add: binary32_def)
qed

lemma fround32_numeral:
  assumes "(numeral k :: int) < 2 ^ 24"
  shows "fround binary32 (numeral k) = Num (numeral k)"
proof -
  have a: "\<bar>numeral k :: int\<bar> < 2 ^ 24" using assms by (simp only: abs_numeral)
  show ?thesis using fround32_int [OF a] by simp
qed

lemma fround64_numeral:
  assumes "(numeral k :: int) < 2 ^ 53"
  shows "fround binary64 (numeral k) = Num (numeral k)"
proof -
  have a: "\<bar>numeral k :: int\<bar> < 2 ^ 53" using assms by (simp only: abs_numeral)
  show ?thesis using fround64_int [OF a] by simp
qed

lemma fround_one: "fround binary32 1 = Num 1" "fround binary64 1 = Num 1"
  using fround_dyadic [of 1 binary32 0] fround64_int [of 1] by (simp_all add: binary32_def)

lemmas float_eval = fround32_numeral fround64_numeral fround_one fround_zero fixed266ToFloat32_eq
  float32ToFixed266_def fadd_def fmul_def fdiv_def fgt_def fge_def zero_of_def inf_of_def
  int_of_float_def trunc_def float64_of_float32_def float_of_int_def fixed_I_def

lemmas demo_eval = demoTypesetting_def demoShape_def demoHas_def ResolveFace_def
  processString_def processSubString_def processFontRun_def shapeRuns_def NewSize_def
  LineThickness_def ReplaceAll_cr_def byte_of_def fontTabSpaceSize_def Let_def enumerate_eq_zip

section \<open>The painter's claims\<close>



text \<open>
  C8. For the string of exactly one space \<^verbatim>\<open>MeasureString\<close> returns the zero size and
  the zero advance and \<^verbatim>\<open>DrawString\<close> leaves the image as it is, whatever the renderer;
  every other string goes through \<^verbatim>\<open>processString\<close>.
\<close>

theorem single_space_special_case:
  "MeasureString ts f '' '' textSize tabWidth = Inr (\<lparr>Width = Num 0, Height = Num 0\<rparr>, Num 0)
   \<and> DrawString DrawShapedRunAt ts dst '' '' color f fontSize scale tabWidth = Inr dst
   \<and> (s \<noteq> '' '' \<longrightarrow>
        MeasureString ts f s textSize tabWidth
          = map_sum id fst (processString ts s f textSize (Num 1) tabWidth (\<lambda>seg x y u. u) ())
        \<and> DrawString DrawShapedRunAt ts dst s color f fontSize scale tabWidth
          = map_sum id snd (processString ts s f fontSize scale tabWidth
              (\<lambda>seg x y img. DrawShapedRunAt
                  \<lparr>FontSize = fontSize, PixScale = scale, Color = color\<rparr> seg img
                  (int_of_float 64 x) (int_of_float 64 y)) dst))"
  by (simp add: MeasureString_def DrawString_def Let_def)

theorem single_space_special_case_witness:
  "''  '' \<noteq> '' ''
   \<and> MeasureString demoTypesetting [Some 1, Some 2] ''  '' (Num 12) 0
       = Inr (\<lparr>Width = Num 18, Height = Num 13\<rparr>, Num 18)
   \<and> DrawString (\<lambda>r seg img x y. img @ [(x, y)]) demoTypesetting [] ''  '' 0 [Some 1, Some 2]
         (Num 12) (Num 1) 0 = Inr [(0, 10), (10, 10)]"
  using single_space_special_case [of demoTypesetting "[Some 1, Some 2]" "Num 12" 0
      "\<lambda>r seg img x y. img @ [(x, y)]" "[]" 0 "Num 12" "Num 1" "''  ''"]
  by (simp add: demo_eval float_eval)

text \<open>
  C5. When the baseline the metrics cache gives is not zero, \<^verbatim>\<open>RenderedTextSize\<close>
  returns the cached pair and leaves both caches as they are, whatever the theme, the
  parser and the shaper. When it is zero the text is measured, the result is returned,
  stored under the same key and found there by the next lookup.
\<close>

theorem rendered_text_size_cache:
  "(\<not> feq (snd (GetFontMetrics mc text fontSize style)) (Num 0) \<longrightarrow>
      RenderedTextSize th P ts (mc, fc) text fontSize style
        = (Inr (GetFontMetrics mc text fontSize style), (mc, fc)))
   \<and> (feq (snd (GetFontMetrics mc text fontSize style)) (Num 0) \<longrightarrow>
        fst (RenderedTextSize th P ts (mc, fc) text fontSize style)
          = fst (measureText th P ts fc text fontSize style)
        \<and> (\<forall>sz base. fst (measureText th P ts fc text fontSize style) = Inr (sz, base) \<longrightarrow>
              fst (snd (RenderedTextSize th P ts (mc, fc) text fontSize style))
                = SetFontMetrics mc text fontSize style sz base
              \<and> GetFontMetrics (fst (snd (RenderedTextSize th P ts (mc, fc) text fontSize style)))
                   text fontSize style = (sz, base)))"
  by (auto simp: RenderedTextSize_def GetFontMetrics_def SetFontMetrics_def Let_def
        split: prod.splits option.splits sum.splits)

lemma demo_measureText:
  "measureText demoTheme demoParse demoTypesetting ClearFontCache ''ab'' (Num 12) plainStyle
     = (Inr (\<lparr>Width = Num 18, Height = Num 13\<rparr>, Num 18),
        [plainStyle \<mapsto> \<lparr>Fonts = [Some 1, Some 11]\<rparr>])"
  by (simp add: measureText_def CachedFontFace_def ClearFontCache_def buildFontCacheItem_def
        loadStyleFaces_def loadMeasureFont_def demoTheme_def demoResource_def demoParse_def
        plainStyle_def MeasureString_def demo_eval float_eval)

lemma GetFontMetrics_SetFontMetrics:
  "GetFontMetrics (SetFontMetrics mc text fontSize style sz base) text fontSize style = (sz, base)"
  by (simp add: GetFontMetrics_def SetFontMetrics_def)

lemma demo_metrics_lookup:
  "GetFontMetrics [(''ab'', Num 12, plainStyle) \<mapsto> (\<lparr>Width = Num 7, Height = Num 3\<rparr>, Num 2)]
      ''ab'' (Num 12) plainStyle = (\<lparr>Width = Num 7, Height = Num 3\<rparr>, Num 2)"
  "GetFontMetrics Map.empty ''ab'' (Num 12) plainStyle = (\<lparr>Width = Num 0, Height = Num 0\<rparr>, Num 0)"
  by (simp_all add: GetFontMetrics_def)

theorem rendered_text_size_cache_witness:
  "RenderedTextSize demoTheme demoParse demoTypesetting
       ([(''ab'', Num 12, plainStyle) \<mapsto> (\<lparr>Width = Num 7, Height = Num 3\<rparr>, Num 2)], ClearFontCache)
       ''ab'' (Num 12) plainStyle
     = (Inr (\<lparr>Width = Num 7, Height = Num 3\<rparr>, Num 2),
        ([(''ab'', Num 12, plainStyle) \<mapsto> (\<lparr>Width = Num 7, Height = Num 3\<rparr>, Num 2)], ClearFontCache))
   \<and> fst (RenderedTextSize demoTheme demoParse demoTypesetting (Map.empty, ClearFontCache)
            ''ab'' (Num 12) plainStyle)
       = Inr (\<lparr>Width = Num 18, Height = Num 13\<rparr>, Num 18)
   \<and> GetFontMetrics (fst (snd (RenderedTextSize demoTheme demoParse demoTypesetting
            (Map.empty, ClearFontCache) ''ab'' (Num 12) plainStyle))) ''ab'' (Num 12) plainStyle
       = (\<lparr>Width = Num 18, Height = Num 13\<rparr>, Num 18)"
  using rendered_text_size_cache [of
      "[(''ab'', Num 12, plainStyle) \<mapsto> (\<lparr>Width = Num 7, Height = Num 3\<rparr>, Num 2)]"
      "''ab''" "Num 12" plainStyle demoTheme demoParse demoTypesetting ClearFontCache]
    rendered_text_size_cache [of Map.empty "''ab''" "Num 12" plainStyle demoTheme demoParse
      demoTypesetting ClearFontCache]
  by (simp add: demo_metrics_lookup demo_measureText GetFontMetrics_SetFontMetrics)

section \<open>Tab stops\<close>

text \<open>
  The quotient of two integers up to \<open>2 ^ 23\<close> is rounded to a binary32 value with the
  same integer part: the rounding never reaches the next integer.
\<close>

lemma quotient_round_floor:
  fixes u b :: int
  assumes b: "0 < b" and bu: "b \<le> u" and u: "u \<le> 2 ^ 23"
  shows "\<exists>q'. fround binary32 (of_int u / of_int b) = Num q' \<and> \<lfloor>q'\<rfloor> = u div b"
proof -
  define q :: rat where "q = of_int u / of_int b"
  define a :: rat where "a = q * 2 ^ 149"
  define L where "L = bitlen \<lfloor>a\<rfloor>"
  have q1: "1 \<le> q" using b bu by (simp add: q_def)
  have qu: "q \<le> of_int u"
  proof -
    have "rat_of_int u / rat_of_int b \<le> rat_of_int u / 1"
      using b bu by (intro divide_left_mono) auto
    then show ?thesis by (simp add: q_def)
  qed
  have qle: "q \<le> 2 ^ 23"
  proof -
    have "rat_of_int u \<le> rat_of_int (2 ^ 23)" using u by (simp only: of_int_le_iff)
    with qu show ?thesis by simp
  qed
  have a_lo: "2 ^ 149 \<le> a" using q1 by (simp add: a_def)
  have a_hi: "a \<le> 2 ^ 172"
  proof -
    have "q * 2 ^ 149 \<le> 2 ^ 23 * 2 ^ 149" using qle by (intro mult_right_mono) auto
    then show ?thesis by (simp add: a_def)
  qed
  have fl_lo: "2 ^ 149 \<le> \<lfloor>a\<rfloor>" using a_lo by (simp add: le_floor_iff)
  have fl_hi: "\<lfloor>a\<rfloor> \<le> 2 ^ 172"
  proof -
    have "\<lfloor>a\<rfloor> \<le> \<lfloor>2 ^ 172 :: rat\<rfloor>" using a_hi by (rule floor_mono)
    then show ?thesis by simp
  qed
  have "(0::int) < 2 ^ 149" by simp
  with fl_lo have fl_pos: "0 < \<lfloor>a\<rfloor>" by linarith
  note bb = bitlen_bounds [OF fl_pos, folded L_def]
  have L_lo: "150 \<le> L"
  proof (rule ccontr)
    assume "\<not> 150 \<le> L"
    then have "nat L \<le> 149" by simp
    then have "(2::int) ^ nat L \<le> 2 ^ 149" by (rule power_increasing) simp
    with bb fl_lo show False by linarith
  qed
  have L_hi: "L \<le> 173"
  proof (rule ccontr)
    assume "\<not> L \<le> 173"
    then have "173 \<le> nat (L - 1)" by simp
    then have "(2::int) ^ 173 \<le> 2 ^ nat (L - 1)" by (rule power_increasing) simp
    moreover have "(2::int) ^ 172 < 2 ^ 173" by simp
    ultimately show False using bb fl_hi by linarith
  qed
  define k where "k = nat (L - 24)"
  define s where "s = 149 - k"
  have ks: "k + s = 149" and k23: "nat (L - 1) = k + 23"
    using L_lo L_hi by (simp_all add: k_def s_def)
  have p149: "(2::rat) ^ 149 = 2 ^ k * 2 ^ s"
    unfolding ks [symmetric] by (rule power_add)
  have ak: "a / 2 ^ k = q * 2 ^ s"
    unfolding a_def p149 by simp
  have "rat_of_int (2 ^ (k + 23)) \<le> rat_of_int \<lfloor>a\<rfloor>"
    using bb unfolding k23 by (simp only: of_int_le_iff)
  also have "\<dots> \<le> a" by (rule of_int_floor_le)
  finally have "2 ^ k * 2 ^ 23 \<le> q * 2 ^ s * (2::rat) ^ k"
    unfolding a_def p149 by (simp add: power_add mult_ac)
  then have qs_lo: "2 ^ 23 \<le> q * 2 ^ s"
    by simp
  have "rat_of_int b * 2 ^ 23 \<le> rat_of_int b * (q * 2 ^ s)"
    using qs_lo b by (intro mult_left_mono) auto
  also have "\<dots> = rat_of_int u * 2 ^ s"
    using b by (simp add: q_def)
  also have "\<dots> \<le> 2 ^ 23 * 2 ^ s"
  proof -
    have "rat_of_int u \<le> rat_of_int (2 ^ 23)" using u by (simp only: of_int_le_iff)
    then show ?thesis by (intro mult_right_mono) auto
  qed
  finally have bs: "rat_of_int b \<le> 2 ^ s" by simp
  define n where "n = u div b"
  define r where "r = u mod b"
  have unr: "u = n * b + r" and r: "0 \<le> r" "r < b"
    using b by (simp_all add: n_def r_def)
  have n_lo: "rat_of_int (n * 2 ^ s) \<le> q * 2 ^ s"
  proof -
    have "rat_of_int n \<le> q"
      using b r by (simp add: q_def unr field_simps)
    then have "rat_of_int n * 2 ^ s \<le> q * 2 ^ s" by (intro mult_right_mono) auto
    then show ?thesis by simp
  qed
  have n_hi: "q * 2 ^ s \<le> rat_of_int ((n + 1) * 2 ^ s - 1)"
  proof -
    have "rat_of_int (n + 1) - q = rat_of_int (b - r) / rat_of_int b"
      using b by (simp add: q_def unr field_simps)
    moreover have "1 \<le> rat_of_int (b - r)" using r by simp
    ultimately have "1 / rat_of_int b \<le> rat_of_int (n + 1) - q"
      using b by (simp add: divide_right_mono)
    then have "1 / rat_of_int b * 2 ^ s \<le> (rat_of_int (n + 1) - q) * 2 ^ s"
      by (intro mult_right_mono) auto
    moreover have "1 \<le> 1 / rat_of_int b * 2 ^ s"
      using bs b by (simp add: field_simps)
    ultimately have "1 \<le> (rat_of_int (n + 1) - q) * 2 ^ s" by linarith
    then show ?thesis by (simp add: algebra_simps)
  qed
  define m where "m = rne (q * 2 ^ s)"
  have m_lo: "n * 2 ^ s \<le> m"
    using rne_mono [OF n_lo] by (simp only: rne_of_int m_def)
  have m_hi: "m \<le> (n + 1) * 2 ^ s - 1"
    using rne_mono [OF n_hi] by (simp only: rne_of_int m_def)
  define q' :: rat where "q' = of_int m / 2 ^ s"
  have rq: "roundq binary32 q = q'"
  proof -
    have e: "etiny binary32 = 149" "int (prec binary32) = 24" by (simp_all add: binary32_def)
    have "roundq binary32 q = of_int (rne (a / 2 ^ k)) * 2 ^ k / 2 ^ 149"
      unfolding roundq_def Let_def e a_def [symmetric] L_def [symmetric] k_def [symmetric] ..
    also have "\<dots> = of_int m * 2 ^ k / (2 ^ k * 2 ^ s)"
      unfolding ak m_def p149 ..
    also have "\<dots> = q'" unfolding q'_def by simp
    finally show ?thesis .
  qed
  have q'_lo: "rat_of_int n \<le> q'"
  proof -
    have "rat_of_int (n * 2 ^ s) \<le> rat_of_int m" using m_lo by (simp only: of_int_le_iff)
    then show ?thesis by (simp add: q'_def field_simps)
  qed
  have q'_hi: "q' < rat_of_int n + 1"
  proof -
    have "rat_of_int m \<le> rat_of_int ((n + 1) * 2 ^ s - 1)" using m_hi by (simp only: of_int_le_iff)
    then have "rat_of_int m < (rat_of_int n + 1) * 2 ^ s" by simp
    then show ?thesis by (simp add: q'_def field_simps)
  qed
  have fl: "\<lfloor>q'\<rfloor> = n" using q'_lo q'_hi by (intro floor_unique) auto
  have "0 < u div b" using b bu by (simp add: pos_imp_zdiv_pos_iff)
  then have n1: "1 \<le> n" unfolding n_def by linarith
  have nu: "n \<le> 2 ^ 23"
  proof -
    have "n * 1 \<le> n * b" using n1 b by (intro mult_left_mono) auto
    with unr r have "n \<le> u" by linarith
    with u show ?thesis by linarith
  qed
  have "rat_of_int 1 \<le> rat_of_int n" using n1 by (simp only: of_int_le_iff)
  then have q'pos: "0 < q'" using q'_lo by simp
  have q'small: "q' < 2 ^ (emax binary32 + 1)"
  proof -
    have "rat_of_int n + 1 \<le> rat_of_int (2 ^ 23) + 1" using nu by (simp only: of_int_le_iff add_le_cancel_right)
    also have "\<dots> \<le> 2 ^ (emax binary32 + 1)" by (simp add: binary32_def)
    finally show ?thesis using q'_hi by linarith
  qed
  have qpos: "0 < q" using q1 by linarith
  have "fround binary32 q = Num q'"
    using qpos q'pos q'small by (simp add: fround_def rq Let_def)
  with fl show ?thesis by (auto simp: q_def n_def)
qed

lemma tabStop_grid:
  fixes a c t :: int
  assumes a: "0 \<le> a" and c: "0 < c" and t: "0 < t" and le: "a + c * t \<le> 2 ^ 23"
  shows "tabStop (Num (of_int c / 2 ^ 6)) (Num (of_int a / 2 ^ 6)) t
           = Num (of_int (c * t) / 2 ^ 6 * of_int ((a + c * t) div (c * t)))"
proof -
  define b where "b = c * t"
  define n where "n = (a + b) div b"
  have b: "0 < b" using c t by (simp add: b_def)
  have tb: "t \<le> b"
  proof -
    have "1 * t \<le> c * t" using c t by (intro mult_right_mono) auto
    then show ?thesis by (simp add: b_def)
  qed
  have ab: "a + b \<le> 2 ^ 23" using le by (simp add: b_def)
  have p: "(2::int) ^ 23 < 2 ^ 24" by simp
  have tw: "float_of_int binary32 t = Num (of_int t)"
    unfolding float_of_int_def using t tb ab a p by (intro fround32_int) linarith
  have "fround binary32 (of_int b / 2 ^ 6) = Num (of_int b / 2 ^ 6)"
    using b ab a p by (intro fround32_fixed) linarith
  then have tabw: "fmul binary32 (Num (of_int c / 2 ^ 6)) (Num (of_int t)) = Num (of_int b / 2 ^ 6)"
    using c t by (simp add: fmul_def b_def)
  have "fround binary32 (of_int (a + b) / 2 ^ 6) = Num (of_int (a + b) / 2 ^ 6)"
    using b ab a p by (intro fround32_fixed) linarith
  moreover have "rat_of_int a / 2 ^ 6 + rat_of_int b / 2 ^ 6 \<noteq> 0"
  proof -
    have "0 < a + b" using a b by linarith
    then have "0 < rat_of_int (a + b)" by (simp only: of_int_0_less_iff)
    then show ?thesis by (simp add: field_simps)
  qed
  ultimately have sum: "fadd binary32 (Num (of_int a / 2 ^ 6)) (Num (of_int b / 2 ^ 6))
      = Num (of_int (a + b) / 2 ^ 6)"
    by (simp add: fadd_def add_divide_distrib)
  obtain q' where q': "fround binary32 (of_int (a + b) / of_int b) = Num q'" "\<lfloor>q'\<rfloor> = n"
    using quotient_round_floor [of b "a + b"] b a ab unfolding n_def by auto
  have n1: "1 \<le> n"
  proof -
    have "b \<le> a + b" using a by linarith
    then have "0 < (a + b) div b" using b by (simp only: pos_imp_zdiv_pos_iff)
    then show ?thesis unfolding n_def by linarith
  qed
  have "a + b \<noteq> 0" "b \<noteq> 0" using a b by linarith+
  then have nz: "rat_of_int (a + b) \<noteq> 0" "rat_of_int b \<noteq> 0"
    by (simp_all only: of_int_eq_0_iff not_False_eq_True)
  have "rat_of_int (a + b) / 2 ^ 6 / (rat_of_int b / 2 ^ 6) = rat_of_int (a + b) / rat_of_int b"
    using nz(2) by (simp add: field_simps)
  with nz have quot: "fdiv binary32 (Num (of_int (a + b) / 2 ^ 6)) (Num (of_int b / 2 ^ 6)) = Num q'"
    using q'(1) by (simp add: fdiv_def)
  have q'0: "0 \<le> q'"
  proof -
    have "0 \<le> \<lfloor>q'\<rfloor>" using q'(2) n1 by linarith
    then show ?thesis by (simp only: zero_le_floor)
  qed
  have tr: "trunc q' = n" using q'0 q'(2) by (simp add: trunc_def)
  have tabs: "Modf_int (float64_of_float32 (Num q')) = Num (of_int n)"
    using n1 by (simp add: float64_of_float32_def tr)
  have nb: "n * b \<le> a + b"
  proof -
    have "n * b + (a + b) mod b = a + b" unfolding n_def by (rule div_mult_mod_eq)
    moreover have "0 \<le> (a + b) mod b" using b by (rule pos_mod_sign)
    ultimately show ?thesis by linarith
  qed
  have nle: "n \<le> a + b"
  proof -
    have "n * 1 \<le> n * b" using n1 b by (intro mult_left_mono) auto
    with nb show ?thesis by linarith
  qed
  have cnv: "float32_of_float64 (Num (of_int n)) = Num (of_int n)"
    using n1 nle ab p by (simp only: float32_of_float64.simps) (intro fround32_int, linarith)
  have "fround binary32 (of_int (b * n) / 2 ^ 6) = Num (of_int (b * n) / 2 ^ 6)"
  proof (intro fround32_fixed)
    have "0 \<le> b * n" using b n1 by simp
    moreover have "b * n \<le> a + b" using nb by (simp add: mult.commute)
    ultimately show "\<bar>b * n\<bar> < 2 ^ 24" using ab p by linarith
  qed
  then have prod: "fmul binary32 (Num (of_int b / 2 ^ 6)) (Num (of_int n)) = Num (of_int b / 2 ^ 6 * of_int n)"
    using b n1 by (simp add: fmul_def)
  show ?thesis
    unfolding tabStop_def Let_def
    using t by (simp only: if_False not_le [symmetric] tw tabw [unfolded b_def [symmetric]] sum quot tabs cnv prod
        b_def [symmetric] n_def [symmetric])
qed

lemma tabStop_effective:
  "tabStop spacew x tabWidth = tabStop spacew x (effectiveTabWidth tabWidth)"
  by (simp add: tabStop_def effectiveTabWidth_def DefaultTabWidth_def)

lemma next_multiple_floor:
  assumes w: "0 < w"
  shows "next_multiple w x (w * of_int \<lfloor>(x + w) / w\<rfloor>)"
proof -
  have e: "(x + w) / w = x / w + 1" using w by (simp add: field_simps)
  have fl: "\<lfloor>(x + w) / w\<rfloor> = \<lfloor>x / w\<rfloor> + 1" unfolding e by simp
  have "x / w < of_int (\<lfloor>x / w\<rfloor> + 1)" by linarith
  then have gt: "x < w * of_int \<lfloor>(x + w) / w\<rfloor>"
    unfolding fl using w by (simp add: field_simps)
  have least: "w * of_int \<lfloor>(x + w) / w\<rfloor> \<le> w * of_int j" if "x < w * of_int j" for j :: int
  proof -
    from that w have "x / w < of_int j" by (simp add: field_simps)
    then have "\<lfloor>x / w\<rfloor> < j" by (simp add: floor_less_iff)
    then have "\<lfloor>(x + w) / w\<rfloor> \<le> j" unfolding fl by linarith
    then have "rat_of_int \<lfloor>(x + w) / w\<rfloor> \<le> rat_of_int j" by (simp only: of_int_le_iff)
    with w show ?thesis by (intro mult_left_mono) auto
  qed
  show ?thesis unfolding next_multiple_def using gt least by blast
qed

text \<open>
  C3, amended. When the cursor \<open>x\<close> is a non-negative multiple of 1/64, the width of a
  space a positive multiple of 1/64 and \<open>x + stop_width\<close> at most 131072 (\<open>2 ^ 23\<close>
  sixty-fourths), no step of \<^verbatim>\<open>tabStop\<close> loses precision: the result is
  \<open>stop_width * floor ((x + stop_width) / stop_width)\<close>, the smallest multiple of the
  stop width strictly greater than \<open>x\<close>. The effective tab width is \<^verbatim>\<open>tabWidth\<close> when
  that is positive and 4 otherwise.
\<close>

theorem tabStop_next_stop:
  fixes a c tabWidth :: int
  assumes "0 \<le> a" and "0 < c" and "a + c * effectiveTabWidth tabWidth \<le> 2 ^ 23"
  shows "(let x = of_int a / 2 ^ 6;
              stop_width = of_int c / 2 ^ 6 * of_int (effectiveTabWidth tabWidth)
          in tabStop (Num (of_int c / 2 ^ 6)) (Num x) tabWidth
               = Num (stop_width * of_int \<lfloor>(x + stop_width) / stop_width\<rfloor>)
             \<and> next_multiple stop_width x (stop_width * of_int \<lfloor>(x + stop_width) / stop_width\<rfloor>))"
proof -
  define t where "t = effectiveTabWidth tabWidth"
  define b where "b = c * t"
  define x :: rat where "x = of_int a / 2 ^ 6"
  define w :: rat where "w = of_int b / 2 ^ 6"
  have t: "0 < t" by (simp add: t_def effectiveTabWidth_def)
  have b: "0 < b" using assms(2) t by (simp add: b_def)
  then have nz: "rat_of_int b \<noteq> 0" by simp
  have w: "0 < w" using b by (simp add: w_def)
  have w': "of_int c / 2 ^ 6 * of_int t = w" by (simp add: w_def b_def)
  have "(x + w) / w = rat_of_int (a + b) / rat_of_int b"
    using nz by (simp add: x_def w_def field_simps)
  then have fl: "\<lfloor>(x + w) / w\<rfloor> = (a + b) div b"
    by (simp only: floor_divide_of_int_eq)
  have grid: "tabStop (Num (of_int c / 2 ^ 6)) (Num (of_int a / 2 ^ 6)) t
          = Num (of_int (c * t) / 2 ^ 6 * of_int ((a + c * t) div (c * t)))"
    using assms(1,2) t assms(3) [folded t_def] by (rule tabStop_grid)
  have "tabStop (Num (of_int c / 2 ^ 6)) (Num x) tabWidth = Num (w * of_int ((a + b) div b))"
    unfolding x_def w_def b_def tabStop_effective [of _ _ tabWidth] t_def [symmetric] by (rule grid)
  then have "tabStop (Num (of_int c / 2 ^ 6)) (Num x) tabWidth = Num (w * of_int \<lfloor>(x + w) / w\<rfloor>)"
    by (simp only: fl)
  with next_multiple_floor [OF w, of x] show ?thesis
    unfolding Let_def t_def [symmetric] w' x_def [symmetric] by (intro conjI)
qed

theorem tabStop_next_stop_witness:
  "tabStop (Num 10) (Num 50) 0 = Num 80 \<and> next_multiple 40 50 80"
proof -
  have "\<lfloor>9 / 4 :: rat\<rfloor> = 2" by (rule floor_unique) simp_all
  with tabStop_next_stop [of 3200 640 0] show ?thesis
    by (simp add: effectiveTabWidth_def Let_def)
qed

text \<open>
  C3, as stated, fails in binary32: at \<open>x = 2 ^ 30\<close> the sum \<open>x + 40\<close> rounds back to
  \<open>x\<close> and the result is \<open>x\<close> itself, not greater than \<open>x\<close>; at \<open>x = 40 - 2 ^ - 18\<close>
  the sum rounds up to 80 and the result is 80, though 40 is a multiple of the stop width
  greater than \<open>x\<close>.
\<close>

theorem tabStop_counterexample:
  "tabStop (Num 10) (Num (2 ^ 30)) 4 = Num (2 ^ 30)
   \<and> tabStop (Num 10) (Num (40 - 1 / 2 ^ 18)) 4 = Num 80
   \<and> is_float binary32 (Num 10) \<and> is_float binary32 (Num (2 ^ 30))
   \<and> is_float binary32 (Num (40 - 1 / 2 ^ 18))"
  by code_simp

lemma demo_tabStop: "tabStop (Num 10) (Num 16) 0 = Num 40"
  using tabStop_grid [of 1024 640 4] by (simp add: tabStop_effective [of _ _ 0] effectiveTabWidth_def)

section \<open>The sink does not influence the geometry\<close>

text \<open>
  At every level the run with a sink \<open>cb\<close> is the run with the recording sink, followed
  by giving the recorded calls to \<open>cb\<close>.
\<close>

lemma replay_snoc: "replay cb (calls @ [(seg, x, y)]) sink = cb seg x y (replay cb calls sink)"
  by (simp add: replay_def)

lemma replay_Nil: "replay cb [] sink = sink"
  by (simp add: replay_def)

lemma processFontRun_replay:
  "processFontRun ts run textSize y advance cb (replay cb tr sink0) =
     (case processFontRun ts run textSize y advance record_call tr of
        (sz, base, advance', tr') \<Rightarrow> (sz, base, advance', replay cb tr' sink0))"
  by (simp add: processFontRun_def Let_def record_call_def replay_snoc)

lemma processRuns_replay:
  "processRuns ts textSize base cb line (advance, thickness, replay cb tr sink0) =
     (case processRuns ts textSize base record_call line (advance, thickness, tr) of
        (advance', thickness', tr') \<Rightarrow> (advance', thickness', replay cb tr' sink0))"
proof (induction line arbitrary: advance thickness tr)
  case Nil
  show ?case by simp
next
  case (Cons run line)
  obtain sz b a' tr' where r: "processFontRun ts run textSize base advance record_call tr = (sz, b, a', tr')"
    by (cases "processFontRun ts run textSize base advance record_call tr") auto
  show ?case
    by (simp add: processFontRun_replay r Cons.IH Let_def)
qed

lemma processSubString_replay:
  "processSubString ts str f fontSize scale startX cb (replay cb tr sink0) =
     (case processSubString ts str f fontSize scale startX record_call tr of
        Inl e \<Rightarrow> Inl e
      | Inr (sz, a, tr') \<Rightarrow> Inr (sz, a, replay cb tr' sink0))"
  by (simp add: processSubString_def Let_def processRuns_replay split: sum.splits prod.splits)

lemma processString_loop_replay:
  "processString_loop ts rs f fontSize scale tabWidth cb ics (x, height, start, replay cb tr sink0) =
     (case processString_loop ts rs f fontSize scale tabWidth record_call ics (x, height, start, tr) of
        Inl e \<Rightarrow> Inl e
      | Inr (x', height', start', tr') \<Rightarrow> Inr (x', height', start', replay cb tr' sink0))"
proof (induction ics arbitrary: x height start tr)
  case Nil
  show ?case by simp
next
  case (Cons ic ics)
  obtain i c where ic: "ic = (i, c)" by (cases ic)
  show ?case
  proof (cases "c = 0x09 \<and> start < i")
    case True
    then show ?thesis
      by (cases "processSubString ts (take (i - start) (drop start rs)) f fontSize scale x record_call tr")
         (auto simp: ic processSubString_replay Cons.IH Let_def)
  next
    case False
    then show ?thesis
      by (auto simp: ic Cons.IH Let_def)
  qed
qed

lemma processString_replay:
  "processString ts s f fontSize scale tabWidth cb sink =
     map_sum id (\<lambda>(g, calls). (g, replay cb calls sink))
       (processString ts s f fontSize scale tabWidth record_call [])"
proof -
  let ?rs = "runes_of (ReplaceAll_cr s)"
  have loop: "processString_loop ts ?rs f fontSize scale tabWidth cb (enumerate 0 ?rs)
                (Num 0, Num 0, 0, sink) =
     (case processString_loop ts ?rs f fontSize scale tabWidth record_call (enumerate 0 ?rs)
             (Num 0, Num 0, 0, []) of
        Inl e \<Rightarrow> Inl e
      | Inr (x', height', start', tr') \<Rightarrow> Inr (x', height', start', replay cb tr' sink))"
    using processString_loop_replay [of ts ?rs f fontSize scale tabWidth cb "enumerate 0 ?rs"
        "Num 0" "Num 0" 0 "[]" sink]
    by (simp add: replay_Nil)
  show ?thesis
    unfolding processString_def Let_def loop
    by (auto simp: processSubString_replay split: sum.splits prod.splits)
qed

text \<open>
  C1. \<^verbatim>\<open>processString\<close> returns the same size and advance (or the same panic) for any
  two sinks; what a sink receives is the list of calls of the recording run, which no
  sink can change. So the geometry that the painting sink of \<^verbatim>\<open>DrawString\<close> gets is
  that of the sink that does nothing, and for scale 1 it is what \<^verbatim>\<open>MeasureString\<close>
  returns (the single space apart, which neither function processes).
\<close>

theorem sink_independence:
  "map_sum id fst (processString ts s f fontSize scale tabWidth cb1 sink1)
     = map_sum id fst (processString ts s f fontSize scale tabWidth cb2 sink2)
   \<and> processString ts s f fontSize scale tabWidth cb1 sink1
     = map_sum id (\<lambda>(g, calls). (g, replay cb1 calls sink1))
         (processString ts s f fontSize scale tabWidth record_call [])
   \<and> map_sum id fst (processString ts s f fontSize scale tabWidth
         (\<lambda>seg x y img. DrawShapedRunAt
             \<lparr>FontSize = fontSize, PixScale = scale, Color = color\<rparr> seg img
             (int_of_float 64 x) (int_of_float 64 y)) dst)
     = map_sum id fst (processString ts s f fontSize scale tabWidth (\<lambda>seg x y u. u) ())
   \<and> MeasureString ts f s fontSize tabWidth
     = (if s = '' '' then Inr (\<lparr>Width = Num 0, Height = Num 0\<rparr>, Num 0)
        else map_sum id fst (processString ts s f fontSize (Num 1) tabWidth
               (\<lambda>seg x y img. DrawShapedRunAt
                   \<lparr>FontSize = fontSize, PixScale = Num 1, Color = color\<rparr> seg img
                   (int_of_float 64 x) (int_of_float 64 y)) dst))"
proof -
  have geom: "map_sum id fst (processString ts s f fontSize sc tabWidth cb sink)
      = map_sum id fst (processString ts s f fontSize sc tabWidth record_call [])"
    for sc and cb :: "'z sink" and sink
    by (subst processString_replay) (auto simp: sum.map_comp comp_def split: prod.splits intro: sum.map_cong)
  show ?thesis
  proof (intro conjI)
    show "map_sum id fst (processString ts s f fontSize scale tabWidth cb1 sink1)
        = map_sum id fst (processString ts s f fontSize scale tabWidth cb2 sink2)"
      by (rule trans [OF geom geom [symmetric]])
    show "processString ts s f fontSize scale tabWidth cb1 sink1
        = map_sum id (\<lambda>(g, calls). (g, replay cb1 calls sink1))
            (processString ts s f fontSize scale tabWidth record_call [])"
      by (rule processString_replay)
    show "map_sum id fst (processString ts s f fontSize scale tabWidth
            (\<lambda>seg x y img. DrawShapedRunAt
                \<lparr>FontSize = fontSize, PixScale = scale, Color = color\<rparr> seg img
                (int_of_float 64 x) (int_of_float 64 y)) dst)
        = map_sum id fst (processString ts s f fontSize scale tabWidth (\<lambda>seg x y u. u) ())"
      by (rule trans [OF geom geom [symmetric]])
    have "map_sum id fst (processString ts s f fontSize (Num 1) tabWidth (\<lambda>seg x y u. u) ())
        = map_sum id fst (processString ts s f fontSize (Num 1) tabWidth
               (\<lambda>seg x y img. DrawShapedRunAt
                   \<lparr>FontSize = fontSize, PixScale = Num 1, Color = color\<rparr> seg img
                   (int_of_float 64 x) (int_of_float 64 y)) dst)"
      by (rule trans [OF geom geom [symmetric]])
    then show "MeasureString ts f s fontSize tabWidth
        = (if s = '' '' then Inr (\<lparr>Width = Num 0, Height = Num 0\<rparr>, Num 0)
           else map_sum id fst (processString ts s f fontSize (Num 1) tabWidth
                  (\<lambda>seg x y img. DrawShapedRunAt
                      \<lparr>FontSize = fontSize, PixScale = Num 1, Color = color\<rparr> seg img
                      (int_of_float 64 x) (int_of_float 64 y)) dst))"
      unfolding MeasureString_def by (simp only:)
  qed
qed

lemma demo_trace:
  "processString demoTypesetting [CHR ''A'', CHR 0x09, CHR ''b'', CHR ''1''] [Some 1, Some 2]
      (Num 12) (Num 1) 0 (\<lambda>seg x y tr. tr @ [(x, y)]) []
   = Inr ((\<lparr>Width = Num 56, Height = Num 13\<rparr>, Num 56),
          [(Num 0, Num 16), (Num 40, Num 10), (Num 48, Num 10)])"
  by (simp add: demo_eval float_eval demo_tabStop)

text \<open>
  C4 at a failing input. In the example the upper-case face has a line of 20 pixels,
  the lower-case face one of 13. For the string of A, a tab and b the height returned is 13, that of
  the last substring, although the substring \<^verbatim>\<open>"A"\<close> alone measures 20: the loop
  assigns \<^verbatim>\<open>height = inset.Height\<close> where a maximum is claimed.
\<close>

theorem height_of_last_substring:
  "MeasureString demoTypesetting [Some 1, Some 2] [CHR ''A'', CHR 0x09, CHR ''b''] (Num 12) 0
     = Inr (\<lparr>Width = Num 48, Height = Num 13\<rparr>, Num 48)
   \<and> MeasureString demoTypesetting [Some 1, Some 2] ''A'' (Num 12) 0
     = Inr (\<lparr>Width = Num 16, Height = Num 20\<rparr>, Num 16)"
  by (simp add: MeasureString_def demo_eval float_eval demo_tabStop)

section \<open>The fixed-point round trip\<close>

text \<open>
  A binary32 value, in units of the least positive value, is an integer of at most 24
  significant bits times a power of two.
\<close>

lemma rne_nonneg: "0 \<le> a \<Longrightarrow> 0 \<le> rne a"
  using rne_mono [of 0 a] by (simp add: rne_def)

lemma float_form:
  assumes "fround F v = Num v"
  defines "k \<equiv> nat (bitlen \<lfloor>\<bar>v\<bar> * 2 ^ etiny F\<rfloor> - int (prec F))"
  shows "\<exists>m. \<bar>v\<bar> * 2 ^ etiny F = of_int m * 2 ^ k \<and> 0 \<le> m \<and> m \<le> 2 ^ prec F"
proof -
  define a :: rat where "a = \<bar>v\<bar> * 2 ^ etiny F"
  define m where "m = rne (a / 2 ^ k)"
  define r :: rat where "r = of_int m * 2 ^ k / 2 ^ etiny F"
  have a0: "0 \<le> a" by (simp add: a_def)
  have m0: "0 \<le> m" unfolding m_def using a0 by (intro rne_nonneg) simp
  have r0: "0 \<le> r" unfolding r_def using m0 by simp
  have rq: "roundq F \<bar>v\<bar> = r"
    unfolding roundq_def Let_def r_def m_def a_def k_def ..
  have "\<bar>v\<bar> = r"
    using assms(1) r0 unfolding fround_def rq Let_def
    by (auto split: if_splits)
  then have eq: "a = of_int m * 2 ^ k"
    unfolding a_def r_def by simp
  have lt: "a / 2 ^ k \<le> 2 ^ prec F"
  proof (cases "0 < \<lfloor>a\<rfloor>")
    case False
    then have a1: "a < 1" by (simp add: not_less floor_le_iff)
    have "0 \<le> \<lfloor>a\<rfloor>" using a0 by simp
    with False have "\<lfloor>a\<rfloor> = 0" by linarith
    then have k0: "k = 0" unfolding k_def a_def [symmetric] by simp
    have "(1::rat) \<le> 2 ^ prec F" by simp
    with a1 have "a \<le> 2 ^ prec F" by linarith
    then show ?thesis by (simp add: k0)
  next
    case True
    define L where "L = bitlen \<lfloor>a\<rfloor>"
    have "\<lfloor>a\<rfloor> < 2 ^ nat L" using bitlen_bounds [OF True] unfolding L_def by simp
    then have "\<lfloor>a\<rfloor> + 1 \<le> 2 ^ nat L" by simp
    then have "rat_of_int (\<lfloor>a\<rfloor> + 1) \<le> rat_of_int (2 ^ nat L)" by (simp only: of_int_le_iff)
    moreover have "a < rat_of_int (\<lfloor>a\<rfloor> + 1)" by linarith
    ultimately have aL: "a < 2 ^ nat L" by simp
    have "nat L \<le> k + prec F" unfolding k_def a_def [symmetric] L_def [symmetric] by linarith
    then have "(2::rat) ^ nat L \<le> 2 ^ (k + prec F)" by (intro power_increasing) simp_all
    with aL have "a < 2 ^ k * 2 ^ prec F" by (simp add: power_add)
    then show ?thesis by (simp add: field_simps)
  qed
  have "m \<le> rne (of_int (2 ^ prec F))"
    unfolding m_def using lt by (intro rne_mono) simp
  then have "m \<le> 2 ^ prec F" by (simp only: rne_of_int)
  with eq m0 show ?thesis unfolding a_def by blast
qed

lemma trunc_error: "\<bar>of_int (trunc x) - x\<bar> < 1"
  unfolding trunc_def by (auto simp: abs_less_iff) linarith+

lemma trunc_of_int: "trunc (of_int n) = n"
  by (simp add: trunc_def)

lemma trunc_range:
  assumes "- (2 ^ 31) \<le> x" "x < 2 ^ 31"
  shows "- (2 ^ 31) \<le> trunc x \<and> trunc x < 2 ^ 31"
proof (cases "x < 0")
  case True
  have "\<lfloor>- x\<rfloor> \<le> \<lfloor>2 ^ 31 :: rat\<rfloor>" using assms(1) by (intro floor_mono) simp
  then have "\<lfloor>- x\<rfloor> \<le> 2 ^ 31" by simp
  moreover have "0 \<le> \<lfloor>- x\<rfloor>" using True by simp
  moreover have "(0::int) < 2 ^ 31" by simp
  moreover have "trunc x = - \<lfloor>- x\<rfloor>" using True by (simp add: trunc_def)
  ultimately show ?thesis by linarith
next
  case False
  then have "0 \<le> \<lfloor>x\<rfloor>" by simp
  moreover have "\<lfloor>x\<rfloor> < 2 ^ 31" using assms(2) by (simp add: floor_less_iff)
  moreover have "(0::int) < 2 ^ 31" by simp
  moreover have "trunc x = \<lfloor>x\<rfloor>" using False by (simp add: trunc_def)
  ultimately show ?thesis by linarith
qed


lemma float32ToFixed266_trunc:
  assumes fl: "fround binary32 v = Num v" and lo: "- (2 ^ 25) \<le> v" and hi: "v < 2 ^ 25"
  shows "float32ToFixed266 (Num v) = word_of_int (trunc (v * 2 ^ 6))"
proof (cases "v = 0")
  case True
  then show ?thesis
    by (simp add: float32ToFixed266_def float64_of_float32_def fmul_def zero_of_def
          int_of_float_def trunc_def)
next
  case False
  define k where "k = nat (bitlen \<lfloor>\<bar>v\<bar> * 2 ^ etiny binary32\<rfloor> - int (prec binary32))"
  obtain m where m: "\<bar>v\<bar> * 2 ^ 149 = of_int m * 2 ^ k" "0 \<le> m" "m \<le> 2 ^ 24"
    using float_form [OF fl] unfolding k_def by (auto simp: binary32_def)
  have p: "(2::rat) ^ 1074 = 2 ^ 149 * 2 ^ 925" "(2::rat) ^ (k + 931) = 2 ^ k * 2 ^ 6 * 2 ^ 925"
    by (simp_all only: power_add [symmetric]) simp_all
  have ex: "fround binary64 (v * 2 ^ 6) = Num (v * 2 ^ 6)"
  proof (rule fround_exact [where m = m and j = "k + 931"])
    have "\<bar>v * 2 ^ 6\<bar> * 2 ^ 1074 = (\<bar>v\<bar> * 2 ^ 149) * 2 ^ 6 * 2 ^ 925"
      unfolding p by (simp add: abs_mult)
    also have "\<dots> = of_int m * 2 ^ (k + 931)"
      unfolding m(1) p by simp
    finally show "\<bar>v * 2 ^ 6\<bar> * 2 ^ etiny binary64 = rat_of_int (m * 2 ^ (k + 931))"
      by (simp add: binary64_def)
    show "0 \<le> m" by fact
    have "(2::int) ^ 24 < 2 ^ 53" by simp
    with m(3) show "m < 2 ^ prec binary64" by (simp add: binary64_def)
    have "\<bar>v\<bar> \<le> 2 ^ 25" using lo hi by linarith
    then have "\<bar>v\<bar> * 2 ^ 6 \<le> 2 ^ 25 * 2 ^ 6" by (intro mult_right_mono) simp_all
    moreover have "(2::rat) ^ 25 * 2 ^ 6 < 2 ^ (emax binary64 + 1)"
      unfolding power_add [symmetric] by (intro power_strict_increasing) (simp_all add: binary64_def)
    ultimately show "\<bar>v * 2 ^ 6\<bar> < 2 ^ (emax binary64 + 1)" by (simp add: abs_mult)
  qed
  have range: "- (2 ^ 31) \<le> trunc (v * 2 ^ 6) \<and> trunc (v * 2 ^ 6) < 2 ^ 31"
  proof (rule trunc_range)
    have "- (2 ^ 25) * 2 ^ 6 \<le> v * (2::rat) ^ 6" using lo by (intro mult_right_mono) simp_all
    then show "- (2 ^ 31) \<le> v * 2 ^ 6" by simp
    have "v * 2 ^ 6 < 2 ^ 25 * (2::rat) ^ 6" using hi by (intro mult_strict_right_mono) simp_all
    then show "v * 2 ^ 6 < 2 ^ 31" by simp
  qed
  have "fmul binary64 (float64_of_float32 (Num v)) (Num (2 ^ 6)) = Num (v * 2 ^ 6)"
    using False ex by (simp add: fmul_def float64_of_float32_def)
  then show ?thesis
    using range by (simp add: float32ToFixed266_def int_of_float_def)
qed

lemma float32_large_integral:
  assumes fl: "fround binary32 v = Num v" and big: "2 ^ 18 \<le> \<bar>v\<bar>"
  shows "\<exists>n::int. v * 2 ^ 6 = of_int n"
proof -
  define a :: rat where "a = \<bar>v\<bar> * 2 ^ 149"
  define L where "L = bitlen \<lfloor>a\<rfloor>"
  define k where "k = nat (L - 24)"
  obtain m where m: "a = of_int m * 2 ^ k" "0 \<le> m"
    using float_form [OF fl] unfolding k_def L_def a_def by (auto simp: binary32_def)
  have "2 ^ 18 * (2::rat) ^ 149 \<le> a" unfolding a_def using big by (intro mult_right_mono) simp_all
  then have "(2::rat) ^ 167 \<le> a" by simp
  then have lo: "2 ^ 167 \<le> \<lfloor>a\<rfloor>" by (simp add: le_floor_iff)
  have "(0::int) < 2 ^ 167" by simp
  with lo have pos: "0 < \<lfloor>a\<rfloor>" by linarith
  have "\<lfloor>a\<rfloor> < 2 ^ nat L" using bitlen_bounds [OF pos] unfolding L_def by simp
  have L: "168 \<le> L"
  proof (rule ccontr)
    assume "\<not> 168 \<le> L"
    then have "nat L \<le> 167" by simp
    then have "(2::int) ^ nat L \<le> 2 ^ 167" by (rule power_increasing) simp
    with \<open>\<lfloor>a\<rfloor> < 2 ^ nat L\<close> lo show False by linarith
  qed
  then have "143 \<le> k" unfolding k_def by linarith
  then obtain d where d: "k = 143 + d" by (auto simp: le_iff_add)
  have "\<bar>v\<bar> * 2 ^ 149 = of_int m * 2 ^ 143 * 2 ^ d"
    using m(1) unfolding a_def d by (simp add: power_add)
  moreover have "(2::rat) ^ 149 = 2 ^ 6 * 2 ^ 143" by (simp only: power_add [symmetric]) simp
  ultimately have "\<bar>v\<bar> * 2 ^ 6 * 2 ^ 143 = of_int m * 2 ^ d * (2::rat) ^ 143" by simp
  then have e: "\<bar>v\<bar> * 2 ^ 6 = of_int (m * 2 ^ d)" by simp
  show ?thesis
  proof (cases "v < 0")
    case True
    then have "v * 2 ^ 6 = - (\<bar>v\<bar> * 2 ^ 6)" by simp
    also have "\<dots> = of_int (- (m * 2 ^ d))" unfolding e by simp
    finally show ?thesis by blast
  next
    case False
    then have "v * 2 ^ 6 = \<bar>v\<bar> * 2 ^ 6" by simp
    with e show ?thesis by metis
  qed
qed


lemma sint_word_of_int_32:
  assumes "- (2 ^ 31) \<le> i" "i < 2 ^ 31"
  shows "sint (word_of_int i :: 32 word) = i"
  using assms by (simp add: signed_of_int signed_take_bit_int_eq_self)

lemma trunc_abs_le: "\<bar>rat_of_int (trunc x)\<bar> \<le> \<bar>x\<bar>"
proof (cases "x < 0")
  case True
  then have "0 \<le> \<lfloor>- x\<rfloor>" by simp
  moreover have "rat_of_int \<lfloor>- x\<rfloor> \<le> - x" by (rule of_int_floor_le)
  ultimately show ?thesis using True by (simp add: trunc_def)
next
  case False
  then have "0 \<le> \<lfloor>x\<rfloor>" by simp
  moreover have "rat_of_int \<lfloor>x\<rfloor> \<le> x" by (rule of_int_floor_le)
  ultimately show ?thesis using False by (simp add: trunc_def)
qed

lemma round_trip_Num:
  assumes fl: "fround binary32 v = Num v" and lo: "- (2 ^ 25) \<le> v" and hi: "v < 2 ^ 25"
  shows "\<exists>r. fixed266ToFloat32 (float32ToFixed266 (Num v)) = Num r \<and> \<bar>r - v\<bar> < 1 / 2 ^ 6"
proof -
  define i where "i = trunc (v * 2 ^ 6)"
  have range: "- (2 ^ 31) \<le> i \<and> i < 2 ^ 31"
    unfolding i_def
  proof (rule trunc_range)
    have "- (2 ^ 25) * 2 ^ 6 \<le> v * (2::rat) ^ 6" using lo by (intro mult_right_mono) simp_all
    then show "- (2 ^ 31) \<le> v * 2 ^ 6" by simp
    have "v * 2 ^ 6 < 2 ^ 25 * (2::rat) ^ 6" using hi by (intro mult_strict_right_mono) simp_all
    then show "v * 2 ^ 6 < 2 ^ 31" by simp
  qed
  have si: "sint (word_of_int i :: 32 word) = i"
    using range by (intro sint_word_of_int_32) simp_all
  have rt: "fixed266ToFloat32 (float32ToFixed266 (Num v)) = fround binary32 (of_int i / 2 ^ 6)"
    unfolding float32ToFixed266_trunc [OF fl lo hi] fixed266ToFloat32_eq i_def [symmetric] si ..
  show ?thesis
  proof (cases "\<bar>i\<bar> < 2 ^ 24")
    case True
    have "\<bar>rat_of_int i - v * 2 ^ 6\<bar> < 1" unfolding i_def by (rule trunc_error)
    moreover have "rat_of_int i / 2 ^ 6 - v = (rat_of_int i - v * 2 ^ 6) / 2 ^ 6"
      by (simp add: field_simps)
    then have "\<bar>rat_of_int i / 2 ^ 6 - v\<bar> = \<bar>rat_of_int i - v * 2 ^ 6\<bar> / 2 ^ 6"
      by (simp only: abs_divide) simp
    ultimately have bound: "\<bar>rat_of_int i / 2 ^ 6 - v\<bar> < 1 / 2 ^ 6"
      by (simp only: divide_strict_right_mono zero_less_power zero_less_numeral)
    have "fixed266ToFloat32 (float32ToFixed266 (Num v)) = Num (rat_of_int i / 2 ^ 6)"
      unfolding rt by (rule fround32_fixed [OF True])
    with bound show ?thesis by blast
  next
    case False
    then have "2 ^ 24 \<le> \<bar>i\<bar>" by simp
    then have "rat_of_int (2 ^ 24) \<le> rat_of_int \<bar>i\<bar>" by (simp only: of_int_le_iff)
    also have "\<dots> = \<bar>rat_of_int i\<bar>" by simp
    also have "\<dots> \<le> \<bar>v * 2 ^ 6\<bar>" unfolding i_def by (rule trunc_abs_le)
    finally have "2 ^ 18 * (2::rat) ^ 6 \<le> \<bar>v\<bar> * 2 ^ 6" by (simp add: abs_mult)
    then have "2 ^ 18 \<le> \<bar>v\<bar>" by simp
    with fl obtain n :: int where n: "v * 2 ^ 6 = of_int n"
      using float32_large_integral by blast
    have "i = n" unfolding i_def n by (rule trunc_of_int)
    then have "rat_of_int i / 2 ^ 6 = v" using n by (simp add: field_simps)
    then have "fixed266ToFloat32 (float32ToFixed266 (Num v)) = Num v"
      unfolding rt using fl by (simp only:)
    moreover have "\<bar>v - v\<bar> < 1 / (2::rat) ^ 6" by simp
    ultimately show ?thesis by blast
  qed
qed

text \<open>
  C9. For every finite binary32 value \<open>v\<close> in the range of the 26.6 format,
  \<open>- 2 ^ 25 \<le> v < 2 ^ 25\<close>, converting to fixed point and back gives a finite value
  within 1/64 of \<open>v\<close>. Below \<open>2 ^ 18\<close> the truncated fixed-point number fits the
  significand; from \<open>2 ^ 18\<close> on \<open>v\<close> is a multiple of 1/64 itself.
\<close>

theorem fixed_round_trip:
  assumes "is_finite f" and "is_float binary32 f"
    and "- (2 ^ 25) \<le> valof f" and "valof f < 2 ^ 25"
  shows "is_finite (fixed266ToFloat32 (float32ToFixed266 f))
     \<and> \<bar>valof (fixed266ToFloat32 (float32ToFixed266 f)) - valof f\<bar> \<le> 1 / 64"
proof (cases f)
  case (Num v)
  with assms have "fround binary32 v = Num v" "- (2 ^ 25) \<le> v" "v < 2 ^ 25"
    by (simp_all add: is_float_def)
  then obtain r where "fixed266ToFloat32 (float32ToFixed266 (Num v)) = Num r" "\<bar>r - v\<bar> < 1 / 2 ^ 6"
    using round_trip_Num by blast
  with Num show ?thesis by simp
next
  case NegZero
  then show ?thesis
    by (simp add: float32ToFixed266_def float64_of_float32_def fmul_def zero_of_def
          int_of_float_def trunc_def fixed266ToFloat32_eq fround_zero)
qed (use assms in simp_all)

theorem fixed_round_trip_witness:
  "is_finite (Num (1285 / 128)) \<and> is_float binary32 (Num (1285 / 128))
   \<and> fixed266ToFloat32 (float32ToFixed266 (Num (1285 / 128))) = Num (321 / 32)
   \<and> \<bar>valof (fixed266ToFloat32 (float32ToFixed266 (Num (1285 / 128)))) - 1285 / 128\<bar> \<le> 1 / 64"
proof -
  have fl: "fround binary32 (1285 / 128) = Num (1285 / 128)"
    using fround_dyadic [of 1285 binary32 7] by (simp add: binary32_def)
  have tr: "trunc (1285 / 2) = 642" by (simp add: trunc_def) (rule floor_unique; simp)
  have "float32ToFixed266 (Num (1285 / 128)) = 642"
    using float32ToFixed266_trunc [OF fl] tr by simp
  then have ev: "fixed266ToFloat32 (float32ToFixed266 (Num (1285 / 128))) = Num (321 / 32)"
    using fround32_fixed [of 642] by (simp add: fixed266ToFloat32_eq)
  show ?thesis
    using fixed_round_trip [of "Num (1285 / 128)"] fl ev by (simp add: is_float_def)
qed

end
